theory Spec2Isabelle
  imports Complex_Main "HOL-Library.Multiset"
begin

section \<open>Python and numpy conventions shared by the model\<close>

text \<open>
  Exceptions of the source are values: a function that can raise returns
  \<open>py_error + 'a\<close>, with \<open>Inl\<close> for the exception.
\<close>

datatype py_error =
  ZeroDivisionError | ValueError | IndexError | AxisError | RuntimeError | KeyboardInterrupt

definition bindE :: "py_error + 'a \<Rightarrow> ('a \<Rightarrow> py_error + 'b) \<Rightarrow> py_error + 'b" where
  "bindE r f = (case r of Inl e \<Rightarrow> Inl e | Inr v \<Rightarrow> f v)"

text \<open>
  \<open>range(i, stop, step)\<close> for a positive step, as the list of its values, and
  \<open>range(0, stop, step)\<close> for an arbitrary integer step: a zero step raises
  \<open>ValueError\<close>, a negative step yields nothing.
\<close>

function py_range_from :: "nat \<Rightarrow> nat \<Rightarrow> nat \<Rightarrow> nat list" where
  "py_range_from i stop step =
     (if 0 < step \<and> i < stop then i # py_range_from (i + step) stop step else [])"
  by pat_completeness auto
termination
  by (relation "measure (\<lambda>(i, stop, step). stop - i)") auto

definition py_range0 :: "nat \<Rightarrow> int \<Rightarrow> py_error + nat list" where
  "py_range0 stop step =
     (if step = 0 then Inl ValueError
      else if step < 0 then Inr []
      else Inr (py_range_from 0 stop (nat step)))"

text \<open>The slice \<open>xs[i:j]\<close> for non-negative bounds; bounds past the end are clipped.\<close>

definition slice :: "nat \<Rightarrow> nat \<Rightarrow> 'a list \<Rightarrow> 'a list" where
  "slice i j xs = take (j - i) (drop i xs)"

text \<open>Indexing by an integer array, \<open>xs[ids]\<close>; an index past the end raises.\<close>

definition fancy_index :: "'a list \<Rightarrow> nat list \<Rightarrow> py_error + 'a list" where
  "fancy_index xs ids =
     (if list_all (\<lambda>i. i < length xs) ids then Inr (map (\<lambda>i. xs ! i) ids) else Inl IndexError)"



text \<open>A loop whose body can raise: the results in order, or the first exception.\<close>

fun mapE :: "('a \<Rightarrow> py_error + 'b) \<Rightarrow> 'a list \<Rightarrow> py_error + 'b list" where
  "mapE f [] = Inr []"
| "mapE f (x # xs) = bindE (f x) (\<lambda>v. bindE (mapE f xs) (\<lambda>vs. Inr (v # vs)))"

section \<open>Numbers: numpy floats and Python scalars\<close>

text \<open>
  A numpy \<open>float64\<close> is a real number or one of the special values \<open>inf\<close>, \<open>-inf\<close>,
  \<open>nan\<close>. Finite arithmetic is exact here: rounding, overflow and the sign of zero are
  outside the model (a zero divisor counts as \<open>+0\<close>). Division by zero on numpy
  operands does not raise: it gives \<open>inf\<close>, \<open>-inf\<close> or \<open>nan\<close> (with a warning).
\<close>

datatype npfloat = Fin real | PInf | NInf | NaN

definition inf_of_sign :: "real \<Rightarrow> npfloat" where
  "inf_of_sign s = (if 0 < s then PInf else if s < 0 then NInf else NaN)"

fun np_add :: "npfloat \<Rightarrow> npfloat \<Rightarrow> npfloat" where
  "np_add (Fin a) (Fin b) = Fin (a + b)"
| "np_add NaN v = NaN"
| "np_add u NaN = NaN"
| "np_add PInf NInf = NaN"
| "np_add NInf PInf = NaN"
| "np_add PInf v = PInf"
| "np_add u PInf = PInf"
| "np_add NInf v = NInf"
| "np_add u NInf = NInf"

fun np_mul :: "npfloat \<Rightarrow> npfloat \<Rightarrow> npfloat" where
  "np_mul (Fin a) (Fin b) = Fin (a * b)"
| "np_mul NaN v = NaN"
| "np_mul u NaN = NaN"
| "np_mul PInf (Fin b) = inf_of_sign b"
| "np_mul (Fin a) PInf = inf_of_sign a"
| "np_mul NInf (Fin b) = inf_of_sign (- b)"
| "np_mul (Fin a) NInf = inf_of_sign (- a)"
| "np_mul PInf PInf = PInf"
| "np_mul PInf NInf = NInf"
| "np_mul NInf PInf = NInf"
| "np_mul NInf NInf = PInf"

fun np_div :: "npfloat \<Rightarrow> npfloat \<Rightarrow> npfloat" where
  "np_div (Fin a) (Fin b) = (if b \<noteq> 0 then Fin (a / b) else inf_of_sign a)"
| "np_div NaN v = NaN"
| "np_div u NaN = NaN"
| "np_div (Fin a) PInf = Fin 0"
| "np_div (Fin a) NInf = Fin 0"
| "np_div PInf (Fin b) = (if 0 \<le> b then PInf else NInf)"
| "np_div NInf (Fin b) = (if 0 \<le> b then NInf else PInf)"
| "np_div PInf PInf = NaN"
| "np_div PInf NInf = NaN"
| "np_div NInf PInf = NaN"
| "np_div NInf NInf = NaN"

text \<open>The comparison \<open>v > t\<close> of a numpy float with a finite threshold.\<close>

fun np_gt :: "npfloat \<Rightarrow> real \<Rightarrow> bool" where
  "np_gt (Fin a) t = (t < a)"
| "np_gt PInf t = True"
| "np_gt NInf t = False"
| "np_gt NaN t = False"

text \<open>
  A scalar is a Python number (\<open>Py\<close>: an \<open>int\<close> or a \<open>float\<close>) or a numpy scalar
  (\<open>Np\<close>). The distinction decides what a zero divisor does: Python's own division
  raises \<open>ZeroDivisionError\<close>, while a division with a numpy operand follows numpy.
\<close>

datatype scalar = Py real | Np npfloat

fun to_np :: "scalar \<Rightarrow> npfloat" where
  "to_np (Py r) = Fin r"
| "to_np (Np v) = v"

fun py_div :: "scalar \<Rightarrow> scalar \<Rightarrow> py_error + scalar" where
  "py_div (Py a) (Py b) = (if b = 0 then Inl ZeroDivisionError else Inr (Py (a / b)))"
| "py_div (Np u) d = Inr (Np (np_div u (to_np d)))"
| "py_div (Py a) (Np v) = Inr (Np (np_div (Fin a) v))"

text \<open>
  The builtin \<open>sum\<close> over a numpy array starts from the Python integer 0: over an empty
  selection the result is that Python 0, otherwise a numpy scalar.
\<close>

definition py_sum :: "npfloat list \<Rightarrow> scalar" where
  "py_sum vs = (if vs = [] then Py 0 else Np (foldl np_add (Fin 0) vs))"

section \<open>Single precision: the conversion \<open>torch.tensor(..., dtype=torch.float)\<close>\<close>

text \<open>
  \<open>torch.float\<close> is IEEE binary32: 24 significant bits, exponents from \<open>-126\<close> to
  \<open>127\<close>, subnormal numbers below \<open>2^-126\<close>. Converting a finite double rounds it
  to the nearest such number, a tie going to the one with an even significand, and a
  result of magnitude \<open>2^128\<close> is an infinity. \<open>f32_ulp x\<close> is the distance between
  neighbouring single-precision numbers in the binade of \<open>x\<close>.
\<close>

definition pow2 :: "int \<Rightarrow> real" where
  "pow2 k = (if 0 \<le> k then 2 ^ nat k else 1 / 2 ^ nat (- k))"

definition round_half_even :: "real \<Rightarrow> int" where
  "round_half_even q =
     (let f = \<lfloor>q\<rfloor>; d = q - of_int f in
      if d < 1 / 2 then f else if 1 / 2 < d then f + 1 else if even f then f else f + 1)"

definition f32_ulp :: "real \<Rightarrow> real" where
  "f32_ulp x = pow2 (max \<lfloor>log 2 \<bar>x\<bar>\<rfloor> (- 126) - 23)"

definition to_float32 :: "real \<Rightarrow> npfloat" where
  "to_float32 x =
     (if x = 0 then Fin 0
      else
        let r = of_int (round_half_even (x / f32_ulp x)) * f32_ulp x in
        if 2 ^ 128 \<le> \<bar>r\<bar> then (if 0 < x then PInf else NInf) else Fin r)"

section \<open>Batching: \<open>ParamNN.getBatches\<close> and \<open>ParamNN.predict\<close>\<close>

text \<open>
  \<open>getBatches\<close> (models.py, lines 175--194). \<open>X\<close> is a two-dimensional array, the list of
  its rows; \<open>y\<close> and \<open>w\<close> are one-dimensional. The generator is modelled by the list of
  the batches it yields. With \<open>shuffle=True\<close> the source draws
  \<open>np.random.permutation(len(X))\<close>; the drawn index array is the argument
  \<open>Some shuffle_ids\<close>, and \<open>None\<close> stands for \<open>shuffle=False\<close>.

  Lines 190--192 turn each slice into a single-precision tensor, entry by entry.
  \<open>reshape(-1, X.shape[1])\<close> on a slice of \<open>X\<close> keeps its rows, and torch refuses it
  (\<open>RuntimeError\<close>) when \<open>X\<close> has no columns.
\<close>

definition shape1 :: "'a list list \<Rightarrow> nat" where
  "shape1 X = length (hd X)"

definition torch_float_rows :: "nat \<Rightarrow> real list list \<Rightarrow> py_error + npfloat list list" where
  "torch_float_rows ncols batch_X =
     (if ncols = 0 then Inl RuntimeError else Inr (map (map to_float32) batch_X))"

definition getBatches ::
  "real list list \<Rightarrow> real list \<Rightarrow> real list \<Rightarrow> int \<Rightarrow> nat list option
     \<Rightarrow> py_error + (npfloat list list \<times> npfloat list \<times> npfloat list) list" where
  "getBatches X y w batch_size shuffle =
     bindE (case shuffle of
              Some shuffle_ids \<Rightarrow>
                bindE (fancy_index X shuffle_ids) (\<lambda>X_sh.
                bindE (fancy_index y shuffle_ids) (\<lambda>y_sh.
                bindE (fancy_index w shuffle_ids) (\<lambda>w_sh. Inr (X_sh, y_sh, w_sh))))
            | None \<Rightarrow> Inr (X, y, w))
       (\<lambda>(X_sh, y_sh, w_sh).
          bindE (py_range0 (length X) batch_size) (\<lambda>starts.
            mapE (\<lambda>i_picture.
                    let batch_X = slice i_picture (i_picture + nat batch_size) X_sh;
                        batch_y = slice i_picture (i_picture + nat batch_size) y_sh;
                        batch_w = slice i_picture (i_picture + nat batch_size) w_sh
                    in bindE (torch_float_rows (shape1 X) batch_X) (\<lambda>X_torch.
                         Inr (X_torch, map to_float32 batch_y, map to_float32 batch_w)))
                 starts))"

text \<open>The rows of a sequence of batches, each row with its label and its weight.\<close>

definition rows_of_batches :: "('x list \<times> 'y list \<times> 'w list) list \<Rightarrow> ('x \<times> 'y \<times> 'w) list" where
  "rows_of_batches bs = concat (map (\<lambda>(bx, by, bw). zip bx (zip by bw)) bs)"


section \<open>Samples and \<open>Model.inflateBkgWithMasses\<close>\<close>

text \<open>
  An event row holds its feature values, with the mass parameter kept apart: the source
  reads it as the last column (\<open>X[:,-1]\<close>) and writes it as the column \<open>"mass"\<close>.
  Labels are integers (1 for signal, 0 for background); \<open>X\<close>, \<open>y\<close> and \<open>w\<close> are parallel
  lists.
\<close>

record row =
  feats :: "real list"
  mass :: real

text \<open>Indexing by a boolean mask of the same length, \<open>xs[msk]\<close>.\<close>

definition bool_index :: "bool list \<Rightarrow> 'a list \<Rightarrow> 'a list" where
  "bool_index msk xs = map snd (filter fst (zip msk xs))"

text \<open>The masks \<open>y==1\<close> and \<open>y==0\<close>, and the counts \<open>sum(y==1)\<close> and \<open>sum(y==0)\<close>.\<close>

definition is_sig :: "int list \<Rightarrow> bool list" where
  "is_sig y = map (\<lambda>l. l = 1) y"

definition is_bkg :: "int list \<Rightarrow> bool list" where
  "is_bkg y = map (\<lambda>l. l = 0) y"

definition nsig :: "int list \<Rightarrow> nat" where
  "nsig y = length (filter (\<lambda>l. l = 1) y)"

definition nbkg :: "int list \<Rightarrow> nat" where
  "nbkg y = length (filter (\<lambda>l. l = 0) y)"

text \<open>
  \<open>inflateBkgWithMasses\<close> (lines 90--106). The loop appends, for each mass point in
  turn, a copy of the background rows with the mass column overwritten, and the copies
  of their labels and weights; the three lists of blocks are concatenated at the end.
\<close>

fun inflate_loop ::
  "real list \<Rightarrow> row list \<Rightarrow> int list \<Rightarrow> real list
     \<Rightarrow> row list list \<times> int list list \<times> real list list
     \<Rightarrow> row list list \<times> int list list \<times> real list list" where
  "inflate_loop [] X_bkg y_bkg w_bkg (Xs, ys, ws) = (Xs, ys, ws)"
| "inflate_loop (m # ms) X_bkg y_bkg w_bkg (Xs, ys, ws) =
     inflate_loop ms X_bkg y_bkg w_bkg
       (Xs @ [map (\<lambda>r. r\<lparr>mass := m\<rparr>) X_bkg], ys @ [y_bkg], ws @ [w_bkg])"

definition inflateBkgWithMasses ::
  "real list \<Rightarrow> row list \<Rightarrow> int list \<Rightarrow> real list \<Rightarrow> row list \<times> int list \<times> real list" where
  "inflateBkgWithMasses train_masses X y w =
     (let X_sig = bool_index (is_sig y) X; y_sig = bool_index (is_sig y) y;
          w_sig = bool_index (is_sig y) w;
          X_bkg = bool_index (is_bkg y) X; y_bkg = bool_index (is_bkg y) y;
          w_bkg = bool_index (is_bkg y) w;
          (Xs, ys, ws) = inflate_loop train_masses X_bkg y_bkg w_bkg ([X_sig], [y_sig], [w_sig])
      in (concat Xs, concat ys, concat ws))"

text \<open>The number of background rows of a sample whose mass column is \<open>m\<close>.\<close>

definition nbkg_at :: "real \<Rightarrow> row list \<Rightarrow> int list \<Rightarrow> nat" where
  "nbkg_at m X y = length (filter (\<lambda>(r, l). l = 0 \<and> mass r = m) (zip X y))"

section \<open>Weight balancing: \<open>Model.equaliseWeights\<close>\<close>

text \<open>
  The masks \<open>X[:,-1]==m\<close> and \<open>a & b\<close>, the read \<open>w[msk]\<close> (\<open>bool_index\<close>) and the
  update \<open>w[msk] = w[msk] * f\<close>. The arrays have a common length.
\<close>

definition mass_is :: "real \<Rightarrow> row list \<Rightarrow> bool list" where
  "mass_is m X = map (\<lambda>r. mass r = m) X"

definition mask_and :: "bool list \<Rightarrow> bool list \<Rightarrow> bool list" where
  "mask_and a b = map (\<lambda>(p, q). p \<and> q) (zip a b)"

definition sig_at :: "real \<Rightarrow> row list \<Rightarrow> int list \<Rightarrow> bool list" where
  "sig_at m X y = mask_and (is_sig y) (mass_is m X)"

definition bkg_at :: "real \<Rightarrow> row list \<Rightarrow> int list \<Rightarrow> bool list" where
  "bkg_at m X y = mask_and (is_bkg y) (mass_is m X)"

definition scale_where :: "bool list \<Rightarrow> scalar \<Rightarrow> npfloat list \<Rightarrow> npfloat list" where
  "scale_where msk f w = map (\<lambda>(b, v). if b then np_mul v (to_np f) else v) (zip msk w)"

text \<open>
  The loop of lines 37--39: for each mass point, the signal weights at that mass are
  multiplied by \<open>avg_sig_sumw / sum(...)\<close>, then the background weights at that mass by
  the same numerator over their own sum.
\<close>

fun equalise_loop ::
  "real list \<Rightarrow> scalar \<Rightarrow> row list \<Rightarrow> int list \<Rightarrow> npfloat list \<Rightarrow> py_error + npfloat list" where
  "equalise_loop [] avg_sig_sumw X y w = Inr w"
| "equalise_loop (m # ms) avg_sig_sumw X y w =
     bindE (py_div avg_sig_sumw (py_sum (bool_index (sig_at m X y) w))) (\<lambda>f_sig.
       let w1 = scale_where (sig_at m X y) f_sig w in
       bindE (py_div avg_sig_sumw (py_sum (bool_index (bkg_at m X y) w1))) (\<lambda>f_bkg.
         equalise_loop ms avg_sig_sumw X y (scale_where (bkg_at m X y) f_bkg w1)))"

text \<open>Lines 35--39: the two averages, then the loop. \<open>avg_bkg_sumw\<close> is computed and not used.\<close>

definition equalise_masses ::
  "real list \<Rightarrow> row list \<Rightarrow> npfloat list \<Rightarrow> int list \<Rightarrow> py_error + npfloat list" where
  "equalise_masses train_masses X w y =
     bindE (py_div (py_sum (bool_index (is_sig y) w)) (Py (real (length train_masses))))
       (\<lambda>avg_sig_sumw.
     bindE (py_div (py_sum (bool_index (is_bkg y) w)) (Py (real (length train_masses))))
       (\<lambda>avg_bkg_sumw.
     equalise_loop train_masses avg_sig_sumw X y w))"

text \<open>
  Lines 42--47: the default of \<open>norm\<close>, then the rescaling of all signal and of all
  background weights. A given \<open>norm\<close> is a Python number.
\<close>

definition equalise_classes :: "npfloat list \<Rightarrow> int list \<Rightarrow> real option \<Rightarrow> py_error + npfloat list" where
  "equalise_classes w y nrm =
     (let nrm' = (case nrm of None \<Rightarrow> py_sum (bool_index (is_sig y) w) | Some r \<Rightarrow> Py r) in
      bindE (py_div nrm' (py_sum (bool_index (is_sig y) w))) (\<lambda>f_sig.
        let w1 = scale_where (is_sig y) f_sig w in
        bindE (py_div nrm' (py_sum (bool_index (is_bkg y) w1))) (\<lambda>f_bkg.
          Inr (scale_where (is_bkg y) f_bkg w1))))"

definition equaliseWeights ::
  "real list \<Rightarrow> row list \<Rightarrow> npfloat list \<Rightarrow> int list \<Rightarrow> real option \<Rightarrow> py_error + npfloat list" where
  "equaliseWeights train_masses X w y nrm =
     bindE (equalise_masses train_masses X w y) (\<lambda>w1. equalise_classes w1 y nrm)"

text \<open>
  The precondition of weight balancing: at least one mass point is configured, no
  weight is negative, and at every configured mass point the signal weights and the
  background weights each have a positive sum.
\<close>

definition wsum :: "bool list \<Rightarrow> real list \<Rightarrow> real" where
  "wsum msk w = sum_list (bool_index msk w)"

definition balanced_input :: "real list \<Rightarrow> row list \<Rightarrow> real list \<Rightarrow> int list \<Rightarrow> bool" where
  "balanced_input train_masses X w y =
     (train_masses \<noteq> [] \<and> list_all (\<lambda>v. 0 \<le> v) w
      \<and> list_all (\<lambda>m. 0 < wsum (sig_at m X y) w \<and> 0 < wsum (bkg_at m X y) w) train_masses)"

text \<open>The update \<open>w[msk] = w[msk] * f\<close> on finite weights.\<close>

definition rscale :: "bool list \<Rightarrow> real \<Rightarrow> real list \<Rightarrow> real list" where
  "rscale msk f w = map (\<lambda>(b, v). if b then v * f else v) (zip msk w)"

section \<open>The policies: \<open>shouldSchedulerStep\<close> and \<open>shouldEarlyStop\<close>\<close>

text \<open>
  A loss history is the list of the per-epoch records, each a list with one loss per
  mass point. \<open>np.array\<close> of it is a two-dimensional array when the records have one
  length, and is refused otherwise; \<open>sum(axis=1)\<close> needs that second axis, which the
  array of an empty history does not have.
\<close>

definition np_array2 :: "real list list \<Rightarrow> py_error + real list list" where
  "np_array2 rows =
     (if list_all (\<lambda>r. length r = length (hd rows)) rows then Inr rows else Inl ValueError)"

definition sum_axis1 :: "real list list \<Rightarrow> py_error + real list" where
  "sum_axis1 arr = (if arr = [] then Inl AxisError else Inr (map sum_list arr))"

text \<open>\<open>min()\<close> and \<open>max()\<close> of an array raise on an empty one.\<close>

definition np_min :: "real list \<Rightarrow> py_error + real" where
  "np_min xs = (if xs = [] then Inl ValueError else Inr (Min (set xs)))"

definition np_max :: "real list \<Rightarrow> py_error + real" where
  "np_max xs = (if xs = [] then Inl ValueError else Inr (Max (set xs)))"

text \<open>\<open>np.where(xs == v)[0][0]\<close>: the first position of \<open>v\<close>, an \<open>IndexError\<close> if there is none.\<close>

definition first_index :: "real \<Rightarrow> real list \<Rightarrow> py_error + nat" where
  "first_index v xs =
     (if v \<in> set xs then Inr (length (takeWhile (\<lambda>x. x \<noteq> v) xs)) else Inl IndexError)"

text \<open>The column \<open>losses[:,i]\<close>, and the slices \<open>xs[k:]\<close> and \<open>xs[:k]\<close> for any integer \<open>k\<close>.\<close>

definition column :: "nat \<Rightarrow> real list list \<Rightarrow> py_error + real list" where
  "column i arr =
     (if list_all (\<lambda>r. i < length r) arr then Inr (map (\<lambda>r. r ! i) arr) else Inl IndexError)"

definition py_from :: "int \<Rightarrow> 'a list \<Rightarrow> 'a list" where
  "py_from k xs = (if 0 \<le> k then drop (nat k) xs else drop (length xs - nat (- k)) xs)"

definition py_upto :: "int \<Rightarrow> 'a list \<Rightarrow> 'a list" where
  "py_upto k xs = (if 0 \<le> k then take (nat k) xs else take (length xs - nat (- k)) xs)"

text \<open>
  Lines 251--254 and 209--210, 226--227: the epoch, counted from 1, of the first
  minimum of the losses summed over the mass points.
\<close>

definition best_loss_epoch :: "real list list \<Rightarrow> py_error + int" where
  "best_loss_epoch losses =
     bindE (np_array2 losses) (\<lambda>arr.
     bindE (sum_axis1 arr) (\<lambda>slosses.
     bindE (np_min slosses) (\<lambda>best_loss.
     bindE (first_index best_loss slosses) (\<lambda>i. Inr (int i + 1)))))"

text \<open>
  \<open>shouldSchedulerStep\<close> (lines 248--260). The attribute \<open>self.last_step_epoch\<close> is
  passed in and returned with the answer.
\<close>

definition shouldSchedulerStep :: "int \<Rightarrow> real list list \<Rightarrow> py_error + bool \<times> int" where
  "shouldSchedulerStep last_step_epoch losses =
     (let n_epochs = int (length losses) in
      bindE (best_loss_epoch losses) (\<lambda>best_epoch.
        if n_epochs - best_epoch > 5 \<and> n_epochs - last_step_epoch > 5
        then Inr (True, n_epochs)
        else Inr (False, last_step_epoch)))"

text \<open>A sequence of calls on one object, one history per call; the answers in order.\<close>

fun scheduler_calls :: "int \<Rightarrow> real list list list \<Rightarrow> py_error + bool list \<times> int" where
  "scheduler_calls last_step_epoch [] = Inr ([], last_step_epoch)"
| "scheduler_calls last_step_epoch (h # hs) =
     bindE (shouldSchedulerStep last_step_epoch h) (\<lambda>(b, last1).
     bindE (scheduler_calls last1 hs) (\<lambda>(bs, last2). Inr (b # bs, last2)))"

text \<open>A history that \<open>np.array\<close> and \<open>sum(axis=1)\<close> accept.\<close>

definition history_ok :: "real list list \<Rightarrow> bool" where
  "history_ok losses = (losses \<noteq> [] \<and> list_all (\<lambda>r. length r = length (hd losses)) losses)"

text \<open>
  \<open>shouldEarlyStop\<close> (lines 196--246). The two loops over the mass points stop at the
  first mass point that answers; \<open>variation/best_loss\<close> and the like are numpy
  divisions. \<open>nmasses\<close> is \<open>len(self.train_masses)\<close>.
\<close>

fun any_unstable :: "nat list \<Rightarrow> real list list \<Rightarrow> int \<Rightarrow> real \<Rightarrow> py_error + bool" where
  "any_unstable [] losses grace_epochs tol = Inr False"
| "any_unstable (i # is) losses grace_epochs tol =
     bindE (column i losses) (\<lambda>col.
     bindE (np_min col) (\<lambda>best_loss.
     bindE (np_max (py_from (- grace_epochs) col)) (\<lambda>hi.
     bindE (np_min (py_from (- grace_epochs) col)) (\<lambda>lo.
       if np_gt (np_div (Fin (hi - lo)) (Fin best_loss)) tol then Inr True
       else any_unstable is losses grace_epochs tol))))"

fun any_make_good_improvement ::
  "nat list \<Rightarrow> real list list \<Rightarrow> int \<Rightarrow> real \<Rightarrow> py_error + bool" where
  "any_make_good_improvement [] losses grace_epochs tol = Inr False"
| "any_make_good_improvement (i # is) losses grace_epochs tol =
     bindE (column i losses) (\<lambda>col.
     bindE (np_min col) (\<lambda>best_loss.
     bindE (np_min (py_upto (- grace_epochs) col)) (\<lambda>best_loss_before.
       if np_gt (np_div (Fin (best_loss_before - best_loss)) (Fin best_loss)) tol then Inr True
       else any_make_good_improvement is losses grace_epochs tol)))"

definition shouldEarlyStop ::
  "nat \<Rightarrow> real list list \<Rightarrow> int \<Rightarrow> int \<Rightarrow> real \<Rightarrow> py_error + bool" where
  "shouldEarlyStop nmasses losses min_epoch grace_epochs tol =
     (let n_epochs = int (length losses) in
      if n_epochs < min_epoch then Inr False
      else
        bindE (np_array2 losses) (\<lambda>arr.
        bindE (sum_axis1 arr) (\<lambda>slosses.
        bindE (if n_epochs > grace_epochs then any_unstable [0..<nmasses] arr grace_epochs tol
               else Inr False) (\<lambda>unstable.
          if unstable then Inr False
          else
            bindE (np_min slosses) (\<lambda>best_loss.
            bindE (first_index best_loss slosses) (\<lambda>i.
              if n_epochs - (int i + 1) > grace_epochs then Inr True
              else if n_epochs > grace_epochs
              then bindE (any_make_good_improvement [0..<nmasses] arr grace_epochs tol)
                     (\<lambda>good. if \<not> good then Inr True else Inr False)
              else Inr False))))))"

text \<open>
  A loss sequence that falls strictly up to its epoch \<open>p\<close> and keeps that value from
  then on, and a history in which every mass point has such a sequence whose flat part
  holds more than \<open>g\<close> records (it began at least \<open>g\<close> epochs before the last one).
\<close>

definition falls_then_flat :: "nat \<Rightarrow> real list \<Rightarrow> bool" where
  "falls_then_flat p xs =
     (1 \<le> p \<and> p \<le> length xs \<and> sorted_wrt (\<lambda>a b. b < a) (take p xs)
      \<and> list_all (\<lambda>x. x = xs ! (p - 1)) (drop p xs))"

definition flat_for :: "nat \<Rightarrow> nat \<Rightarrow> real list list \<Rightarrow> bool" where
  "flat_for g nmasses losses =
     (list_all (\<lambda>r. length r = nmasses) losses
      \<and> list_all (\<lambda>i. list_ex (\<lambda>p. falls_then_flat p (map (\<lambda>r. r ! i) losses))
                          [1..<Suc (length losses - g)]) [0..<nmasses])"

section \<open>Evaluation: \<open>Model.getROC\<close>\<close>

text \<open>
  \<open>np.trapz(ys, xs)\<close> on one-dimensional arrays: the products of \<open>diff(xs)\<close> with the sums
  of neighbouring \<open>ys\<close>, halved and added up. The product broadcasts an operand of
  length one and raises \<open>ValueError\<close> on any other mismatch of the lengths.
\<close>

definition np_diff :: "real list \<Rightarrow> real list" where
  "np_diff xs = map (\<lambda>(a, b). b - a) (zip xs (tl xs))"

definition neighbour_sums :: "real list \<Rightarrow> real list" where
  "neighbour_sums ys = map (\<lambda>(a, b). b + a) (zip ys (tl ys))"

definition np_trapz :: "real list \<Rightarrow> real list \<Rightarrow> py_error + real" where
  "np_trapz ys xs =
     (let d = np_diff xs; s = neighbour_sums ys in
      if length d = length s then Inr (sum_list (map (\<lambda>(a, b). a * b / 2) (zip d s)))
      else if length d = 1 then Inr (sum_list (map (\<lambda>b. hd d * b / 2) s))
      else if length s = 1 then Inr (sum_list (map (\<lambda>a. a * hd s / 2) d))
      else Inl ValueError)"

text \<open>
  \<open>getROC\<close> (lines 108--115). \<open>self.predict\<close>, \<open>roc_curve\<close> and \<open>roc_auc_score\<close> are
  parameters that return or raise. Only the call of \<open>roc_auc_score\<close> is inside the
  \<open>try\<close>, and the bare \<open>except\<close> takes every exception.
\<close>

definition getROC ::
  "('x \<Rightarrow> py_error + 'p) \<Rightarrow> ('y \<Rightarrow> 'p \<Rightarrow> 'wt \<Rightarrow> py_error + real list \<times> real list \<times> real list)
     \<Rightarrow> ('y \<Rightarrow> 'p \<Rightarrow> 'wt \<Rightarrow> py_error + real) \<Rightarrow> 'x \<Rightarrow> 'y \<Rightarrow> 'wt
     \<Rightarrow> py_error + real list \<times> real list \<times> real" where
  "getROC predict_fn roc_curve roc_auc_score X y weight =
     bindE (predict_fn X) (\<lambda>predictions.
     bindE (roc_curve y predictions weight) (\<lambda>(fpr, tpr, t).
       case roc_auc_score y predictions weight of
         Inr auc \<Rightarrow> Inr (fpr, tpr, auc)
       | Inl e \<Rightarrow> bindE (np_trapz tpr fpr) (\<lambda>auc. Inr (fpr, tpr, auc))))"

section \<open>The epoch loop of \<open>ParamNN.train\<close>\<close>

text \<open>
  Lines 315--350. The state of the loop is the two loss histories,
  \<open>self.last_step_epoch\<close> and \<open>self.alreadyPlotting\<close>. What the network computes is a
  parameter of the model:
  \<open>env_losses i\<close> is the pair of records \<open>(trl, tel)\<close> that epoch \<open>i\<close> appends. An external
  interrupt is the parameter \<open>env_irq\<close>: the epoch and the place in the loop body at
  which \<open>KeyboardInterrupt\<close> is raised, if the loop gets there.
\<close>

datatype interrupt_point =
    InBatchLoop        \<comment> \<open>lines 322--326, between or inside batches\<close>
  | InLossEvaluation   \<comment> \<open>lines 328--332\<close>
  | BetweenAppends     \<comment> \<open>after line 333, before line 334\<close>
  | AfterAppends       \<comment> \<open>lines 336--339, before the plot update has drawn its lines\<close>
  | InEarlyStop        \<comment> \<open>line 345, after the \<open>try\<close> statement\<close>

record train_state =
  train_loss :: "real list list"
  test_loss :: "real list list"
  step_epoch :: int
  already_plotting :: bool

record train_env =
  env_nmasses :: nat
  env_losses :: "nat \<Rightarrow> real list \<times> real list"
  env_irq :: "(nat \<times> interrupt_point) option"
  env_min_epoch :: int
  env_grace_epochs :: int
  env_tol :: real

text \<open>
  \<open>updateLossPlot\<close> (lines 262--284), as far as it decides what \<open>train\<close> does.
  \<open>ax.plot(x, ys)\<close> with \<open>x = [1, ..., len(ys)]\<close> draws one line per column of the
  history \<open>ys\<close> (a single line for an empty history, and an exception for records of
  different lengths). On the first call, lines 267 and 268 unpack the returned lines
  into one target each, which raises \<open>ValueError\<close> unless there is exactly one line.
  Later calls update the two lines that exist. Both histories have the length of \<open>x\<close>
  here: each epoch appends to both before it plots.
\<close>

definition plot_lines :: "real list list \<Rightarrow> py_error + nat" where
  "plot_lines ys =
     bindE (np_array2 ys) (\<lambda>arr. Inr (if arr = [] then 1 else length (hd arr)))"

definition unpack_one_line :: "nat \<Rightarrow> py_error + unit" where
  "unpack_one_line nlines = (if nlines = 1 then Inr () else Inl ValueError)"

definition updateLossPlot :: "train_state \<Rightarrow> py_error + train_state" where
  "updateLossPlot s =
     (if \<not> already_plotting s
      then bindE (plot_lines (train_loss s)) (\<lambda>n_train.
           bindE (unpack_one_line n_train) (\<lambda>_.
           bindE (plot_lines (test_loss s)) (\<lambda>n_test.
           bindE (unpack_one_line n_test) (\<lambda>_.
             Inr (s\<lparr>already_plotting := True\<rparr>)))))
      else Inr s)"

text \<open>
  The \<open>try\<close> statement of one epoch (lines 319--342): it completes, or
  \<open>KeyboardInterrupt\<close> is caught by its handler, or another exception leaves it.
\<close>

datatype body_result = Completed train_state | Caught train_state | Propagated py_error

definition epoch_body :: "train_env \<Rightarrow> nat \<Rightarrow> train_state \<Rightarrow> body_result" where
  "epoch_body env i_epoch s =
     (if env_irq env = Some (i_epoch, InBatchLoop) then Caught s
      else if env_irq env = Some (i_epoch, InLossEvaluation) then Caught s
      else
        let (trl, tel) = env_losses env i_epoch;
            s1 = s\<lparr>train_loss := train_loss s @ [trl]\<rparr>
        in if env_irq env = Some (i_epoch, BetweenAppends) then Caught s1
           else
             let s2 = s1\<lparr>test_loss := test_loss s1 @ [tel]\<rparr>
             in if env_irq env = Some (i_epoch, AfterAppends) then Caught s2
                else case shouldSchedulerStep (step_epoch s2) (train_loss s2) of
                       Inl e \<Rightarrow> Propagated e
                     | Inr (step, last1) \<Rightarrow>
                         (case updateLossPlot (s2\<lparr>step_epoch := last1\<rparr>) of
                            Inl e \<Rightarrow> Propagated e
                          | Inr s3 \<Rightarrow> Completed s3))"

text \<open>
  The \<open>for\<close> loop over \<open>range(max_epochs)\<close>: a caught interrupt breaks out of it, the
  early-stop check runs after the \<open>try\<close> statement, and an interrupt raised there is not
  caught.
\<close>

datatype outcome =
    MaxEpochsReached train_state | EarlyStopped train_state | Interrupted train_state

fun epoch_loop :: "train_env \<Rightarrow> nat list \<Rightarrow> train_state \<Rightarrow> py_error + outcome" where
  "epoch_loop env [] s = Inr (MaxEpochsReached s)"
| "epoch_loop env (i_epoch # rest) s =
     (case epoch_body env i_epoch s of
        Propagated e \<Rightarrow> Inl e
      | Caught s1 \<Rightarrow> Inr (Interrupted s1)
      | Completed s1 \<Rightarrow>
          if env_irq env = Some (i_epoch, InEarlyStop) then Inl KeyboardInterrupt
          else bindE (shouldEarlyStop (env_nmasses env) (test_loss s1) (env_min_epoch env)
                        (env_grace_epochs env) (env_tol env))
                 (\<lambda>stop. if stop then Inr (EarlyStopped s1) else epoch_loop env rest s1))"

fun final_state :: "outcome \<Rightarrow> train_state" where
  "final_state (MaxEpochsReached s) = s"
| "final_state (EarlyStopped s) = s"
| "final_state (Interrupted s) = s"

definition initial_state :: train_state where
  "initial_state = \<lparr>train_loss = [], test_loss = [], step_epoch = 0, already_plotting = False\<rparr>"

definition train_epochs :: "train_env \<Rightarrow> nat \<Rightarrow> py_error + real list list \<times> real list list" where
  "train_epochs env max_epochs =
     bindE (epoch_loop env [0..<max_epochs] initial_state)
       (\<lambda>out. Inr (train_loss (final_state out), test_loss (final_state out)))"

section \<open>Properties of the single-precision conversion\<close>

lemma pow2_pos: "0 < pow2 k"
  by (simp add: pow2_def)

lemma round_half_even_of_int: "round_half_even (of_int m) = m"
  by (simp add: round_half_even_def)

lemma floor_log2_between:
  fixes a :: real
  assumes "2 ^ k \<le> a" "a < 2 ^ Suc k"
  shows "\<lfloor>log 2 a\<rfloor> = int k"
proof -
  have "(0::real) < 2 ^ k" by simp
  then have pos: "0 < a" using assms(1) by (rule less_le_trans)
  have "real k \<le> log 2 a"
    using assms(1) pos by (simp add: le_log_iff powr_realpow)
  moreover have "log 2 a < real k + 1"
    using assms(2) pos by (simp add: log_less_iff powr_realpow powr_add)
  ultimately show ?thesis by (intro floor_unique) simp_all
qed

lemma f32_ulp_binade:
  fixes x :: real
  assumes "2 ^ k \<le> \<bar>x\<bar>" "\<bar>x\<bar> < 2 ^ Suc k"
  shows "f32_ulp x = pow2 (int k - 23)"
  using floor_log2_between [OF assms] by (simp add: f32_ulp_def)

lemma to_float32_exact:
  assumes "x \<noteq> 0" and "x / f32_ulp x = of_int m" and "\<bar>x\<bar> < 2 ^ 128"
  shows "to_float32 x = Fin x"
proof -
  have u: "f32_ulp x \<noteq> 0"
    using pow2_pos [of "max \<lfloor>log 2 \<bar>x\<bar>\<rfloor> (- 126) - 23"] by (simp add: f32_ulp_def)
  have "round_half_even (x / f32_ulp x) = m"
    by (simp only: assms(2) round_half_even_of_int)
  then have "of_int (round_half_even (x / f32_ulp x)) * f32_ulp x = x / f32_ulp x * f32_ulp x"
    by (simp only: assms(2))
  then have "of_int (round_half_even (x / f32_ulp x)) * f32_ulp x = x"
    using u by simp
  then show ?thesis
    using assms(1,3) by (simp add: to_float32_def Let_def)
qed

text \<open>Integers of magnitude up to \<open>2^24\<close>, the labels 0 and 1 among them, convert exactly.\<close>

lemma to_float32_int:
  assumes "\<bar>n\<bar> \<le> 2 ^ 24"
  shows "to_float32 (of_int n) = Fin (of_int n)"
proof (cases "n = 0")
  case True
  then show ?thesis by (simp add: to_float32_def)
next
  case False
  define a where "a = nat \<bar>n\<bar>"
  have a1: "1 \<le> a" using False by (simp add: a_def)
  obtain k where k: "2 ^ k \<le> a" "a < 2 ^ (k + 1)"
    using ex_power_ivl1 [of 2 a] a1 by auto
  have an: "real a = \<bar>real_of_int n\<bar>"
    by (simp add: a_def)
  have lo: "(2::real) ^ k \<le> \<bar>real_of_int n\<bar>"
  proof -
    have "real (2 ^ k) \<le> real a" using k(1) by (simp only: of_nat_le_iff)
    then show ?thesis by (simp add: an)
  qed
  have hi: "\<bar>real_of_int n\<bar> < 2 ^ Suc k"
  proof -
    have "real a < real (2 ^ (k + 1))" using k(2) by (simp only: of_nat_less_iff)
    then show ?thesis by (simp add: an)
  qed
  have ulp: "f32_ulp (of_int n) = pow2 (int k - 23)"
    by (rule f32_ulp_binade [OF lo hi])
  have a24: "a \<le> 2 ^ 24"
    using assms by (simp add: a_def nat_le_iff)
  have k24: "k \<le> 24"
  proof (rule ccontr)
    assume "\<not> k \<le> 24"
    then have "25 \<le> k" by simp
    then have "(2::nat) ^ 25 \<le> 2 ^ k" by (intro power_increasing) simp_all
    with k(1) a24 show False by simp
  qed
  have small: "\<bar>real_of_int n\<bar> < 2 ^ 128"
  proof -
    have "\<bar>real_of_int n\<bar> \<le> 2 ^ 24"
      using a24 an by (metis of_nat_le_iff of_nat_numeral of_nat_power)
    also have "\<dots> < (2::real) ^ 128" by simp
    finally show ?thesis .
  qed
  have nz: "real_of_int n \<noteq> 0" using False by simp
  show ?thesis
  proof (cases "k \<le> 23")
    case True
    then have "int k - 23 \<le> 0" by simp
    then have p: "pow2 (int k - 23) = 1 / 2 ^ (23 - k)"
      using True by (cases "k = 23") (simp_all add: pow2_def nat_diff_distrib')
    have "real_of_int n / f32_ulp (of_int n) = of_int (n * 2 ^ (23 - k))"
      by (simp add: ulp p)
    then show ?thesis
      by (rule to_float32_exact [OF nz _ small])
  next
    case False
    then have k: "k = 24" using k24 by simp
    then have "a = 2 ^ 24" using \<open>2 ^ k \<le> a\<close> a24 by simp
    then have "\<bar>n\<bar> = 2 ^ 24" by (simp add: a_def)
    then have "n = 16777216 \<or> n = - 16777216" by simp arith
    then have "even n" by auto
    then have n: "n = 2 * (n div 2)" by simp
    have p: "pow2 (int k - 23) = 2" by (simp add: k pow2_def)
    have "real_of_int n / f32_ulp (of_int n) = of_int (n div 2)"
      using n by (simp add: ulp p)
    then show ?thesis
      by (rule to_float32_exact [OF nz _ small])
  qed
qed

lemma to_float32_numeral [simp]:
  "(numeral v :: int) \<le> 2 ^ 24 \<Longrightarrow> to_float32 (numeral v) = Fin (numeral v)"
  using to_float32_int [of "numeral v"] by simp

lemma to_float32_zero_one [simp]: "to_float32 0 = Fin 0" "to_float32 1 = Fin 1"
  using to_float32_int [of 0] to_float32_int [of 1] by simp_all

text \<open>\<open>2^24 + 1\<close> lies halfway between two single-precision numbers and goes to the even one.\<close>

lemma to_float32_16777217: "to_float32 16777217 = Fin 16777216"
proof -
  have "f32_ulp 16777217 = pow2 (int 24 - 23)"
    by (rule f32_ulp_binade) simp_all
  then have u: "f32_ulp 16777217 = 2"
    by (simp add: pow2_def)
  have r: "round_half_even (16777217 / 2) = 8388608"
    by (simp add: round_half_even_def Let_def)
  show ?thesis
    by (simp add: to_float32_def u r)
qed

section \<open>Properties of batching\<close>

declare py_range_from.simps [simp del]

lemma slice_plus: "slice i (i + b) xs = take b (drop i xs)"
  by (simp add: slice_def)

lemma concat_slices:
  "0 < b \<Longrightarrow> concat (map (\<lambda>j. take b (drop j xs)) (py_range_from i (length xs) b)) = drop i xs"
proof (induction i "length xs" b rule: py_range_from.induct)
  case (1 i step)
  show ?case
  proof (cases "i < length xs")
    case True
    have "take step (drop i xs) @ drop (i + step) xs = drop i xs"
      using append_take_drop_id [of step "drop i xs"] by (simp add: add.commute)
    with 1 True show ?thesis
      by (subst py_range_from.simps) simp
  next
    case False
    then show ?thesis
      by (subst py_range_from.simps) simp
  qed
qed

lemma length_py_range_from:
  "0 < b \<Longrightarrow> length (py_range_from i n b) = (n - i + b - 1) div b"
proof (induction i n b rule: py_range_from.induct)
  case (1 i n b)
  show ?case
  proof (cases "i < n")
    case True
    define d where "d = n - Suc i"
    have d: "n = i + Suc d"
      using True by (simp add: d_def)
    have step: "Suc ((n - (i + b) + b - 1) div b) = (n - i + b - 1) div b"
    proof (cases "b \<le> Suc d")
      case True
      then have e: "n - (i + b) + b - 1 = d" "n - i + b - 1 = d + b"
        using d by simp_all
      have "Suc (d div b) = (d + b) div b"
        using \<open>0 < b\<close> by simp
      then show ?thesis by (simp only: e)
    next
      case False
      then have e: "n - (i + b) + b - 1 = b - 1" "n - i + b - 1 = d + b"
        using d by simp_all
      have "d < b" using False by simp
      then have "Suc ((b - 1) div b) = (d + b) div b"
        using \<open>0 < b\<close> by simp
      then show ?thesis by (simp only: e)
    qed
    with 1 True show ?thesis
      by (subst py_range_from.simps) simp
  next
    case False
    then have "n - i + b - 1 = b - 1" by simp
    with False 1 show ?thesis
      by (subst py_range_from.simps) simp
  qed
qed



lemma ceiling_div_nat:
  assumes "0 < b"
  shows "\<lceil>real n / real b\<rceil> = int ((n + b - 1) div b)"
proof -
  define q where "q = (n + b - 1) div b"
  define r where "r = (n + b - 1) mod b"
  have eq: "n + b - 1 = q * b + r" and r: "r < b"
    using assms by (simp_all add: q_def r_def)
  have n: "real n = real q * real b + real r - (real b - 1)"
  proof -
    have "real (n + b - 1) = real (q * b + r)" using eq by simp
    moreover have "real (n + b - 1) = real n + real b - 1"
      using assms by (simp add: of_nat_diff)
    ultimately show ?thesis by simp
  qed
  have bpos: "0 < real b" using assms by simp
  have up: "real n / real b \<le> real q"
  proof -
    have "real n \<le> real q * real b" using n r by simp
    then show ?thesis using bpos by (simp add: divide_le_eq)
  qed
  have lo: "real q - 1 < real n / real b"
  proof -
    have "real r \<ge> 0" by simp
    then have "real q * real b - real b < real n" using n by linarith
    then have "(real q - 1) * real b < real n" by (simp add: algebra_simps)
    then show ?thesis using bpos by (simp add: less_divide_eq)
  qed
  have "\<lceil>real n / real b\<rceil> = int q"
    using up lo by (intro ceiling_unique) simp_all
  then show ?thesis by (simp add: q_def)
qed

lemma concat_lift_slices:
  "concat (map (\<lambda>i. f (take b (drop i xs))) is) = concat (map f (map (\<lambda>i. take b (drop i xs)) is))"
  by (simp add: comp_def)

lemma rows_of_slices:
  assumes "0 < b" "length ys = length xs" "length zs = length xs"
  shows "rows_of_batches (map (\<lambda>i. (take b (drop i xs), take b (drop i ys), take b (drop i zs)))
            (py_range_from 0 (length xs) b)) = zip xs (zip ys zs)"
proof -
  have "rows_of_batches (map (\<lambda>i. (take b (drop i xs), take b (drop i ys), take b (drop i zs)))
            (py_range_from 0 (length xs) b))
        = concat (map (\<lambda>i. take b (drop i (zip xs (zip ys zs)))) (py_range_from 0 (length xs) b))"
    by (simp add: rows_of_batches_def comp_def take_zip drop_zip)
  also have "\<dots> = concat (map (\<lambda>i. take b (drop i (zip xs (zip ys zs))))
                       (py_range_from 0 (length (zip xs (zip ys zs))) b))"
    using assms by simp
  also have "\<dots> = zip xs (zip ys zs)"
    using concat_slices [OF assms(1), of "zip xs (zip ys zs)" 0] by simp
  finally show ?thesis .
qed

lemma zip_nth_map:
  assumes "length ys = length xs" "length zs = length xs"
  shows "map (\<lambda>i. (xs ! i, ys ! i, zs ! i)) [0..<length xs] = zip xs (zip ys zs)"
  using assms by (intro nth_equalityI) simp_all

lemma mset_fancy_rows:
  assumes "mset ids = mset [0..<length xs]" "length ys = length xs" "length zs = length xs"
  shows "mset (zip (map (\<lambda>i. xs ! i) ids) (zip (map (\<lambda>i. ys ! i) ids) (map (\<lambda>i. zs ! i) ids)))
         = mset (zip xs (zip ys zs))"
proof -
  have "zip (map (\<lambda>i. xs ! i) ids) (zip (map (\<lambda>i. ys ! i) ids) (map (\<lambda>i. zs ! i) ids))
        = map (\<lambda>i. (xs ! i, ys ! i, zs ! i)) ids"
    by (induction ids) simp_all
  then have "mset (zip (map (\<lambda>i. xs ! i) ids) (zip (map (\<lambda>i. ys ! i) ids) (map (\<lambda>i. zs ! i) ids)))
        = image_mset (\<lambda>i. (xs ! i, ys ! i, zs ! i)) (mset ids)"
    by simp
  also have "\<dots> = mset (map (\<lambda>i. (xs ! i, ys ! i, zs ! i)) [0..<length xs])"
    using assms(1) by simp
  also have "\<dots> = mset (zip xs (zip ys zs))"
    using zip_nth_map [OF assms(2,3)] by simp
  finally show ?thesis .
qed

lemma fancy_index_perm:
  assumes "mset ids = mset [0..<n]" "length xs = n"
  shows "fancy_index xs ids = Inr (map (\<lambda>i. xs ! i) ids)"
proof -
  have "set ids = {0..<n}"
    using assms(1) by (metis mset_eq_setD set_upt)
  then show ?thesis
    using assms(2) by (auto simp: fancy_index_def list_all_iff)
qed

lemma mapE_all_Inr:
  "(\<And>x. x \<in> set xs \<Longrightarrow> f x = Inr (g x)) \<Longrightarrow> mapE f xs = Inr (map g xs)"
  by (induction xs) (simp_all add: bindE_def)

lemma py_range_from_empty: "py_range_from i 0 b = []"
  by (subst py_range_from.simps) simp

lemma shape1_positive: "[] \<notin> set X \<Longrightarrow> X \<noteq> [] \<Longrightarrow> shape1 X \<noteq> 0"
  by (cases X) (auto simp: shape1_def)

lemma batches_converted:
  assumes "0 < batch_size" and "[] \<notin> set X"
  shows "mapE (\<lambda>i_picture.
                  let batch_X = slice i_picture (i_picture + nat batch_size) X_sh;
                      batch_y = slice i_picture (i_picture + nat batch_size) y_sh;
                      batch_w = slice i_picture (i_picture + nat batch_size) w_sh
                  in bindE (torch_float_rows (shape1 X) batch_X) (\<lambda>X_torch.
                       Inr (X_torch, map to_float32 batch_y, map to_float32 batch_w)))
               (py_range_from 0 (length X) (nat batch_size))
         = Inr (map (\<lambda>i. (take (nat batch_size) (drop i (map (map to_float32) X_sh)),
                           take (nat batch_size) (drop i (map to_float32 y_sh)),
                           take (nat batch_size) (drop i (map to_float32 w_sh))))
                    (py_range_from 0 (length X) (nat batch_size)))"
proof (cases "X = []")
  case True
  then show ?thesis by (simp add: py_range_from_empty)
next
  case False
  then have "shape1 X \<noteq> 0"
    using assms(2) by (simp add: shape1_positive)
  then show ?thesis
    by (intro mapE_all_Inr)
       (simp add: torch_float_rows_def bindE_def slice_plus take_map drop_map)
qed

lemma getBatches_unshuffled:
  assumes "0 < batch_size" and "[] \<notin> set X"
  shows "getBatches X y w batch_size None =
         Inr (map (\<lambda>i. (take (nat batch_size) (drop i (map (map to_float32) X)),
                         take (nat batch_size) (drop i (map to_float32 y)),
                         take (nat batch_size) (drop i (map to_float32 w))))
                  (py_range_from 0 (length X) (nat batch_size)))"
  using assms(1) batches_converted [OF assms, of X y w]
  by (simp add: getBatches_def bindE_def py_range0_def)

lemma nth_map_ids:
  assumes "\<forall>i \<in> set ids. i < length xs"
  shows "map f (map (\<lambda>i. xs ! i) ids) = map (\<lambda>i. map f xs ! i) ids"
  using assms by simp

lemma getBatches_shuffled:
  assumes "0 < batch_size" "mset ids = mset [0..<length X]" "length y = length X" "length w = length X"
    and "[] \<notin> set X"
  shows "getBatches X y w batch_size (Some ids) =
         Inr (map (\<lambda>i. (take (nat batch_size) (drop i (map (\<lambda>i. map (map to_float32) X ! i) ids)),
                         take (nat batch_size) (drop i (map (\<lambda>i. map to_float32 y ! i) ids)),
                         take (nat batch_size) (drop i (map (\<lambda>i. map to_float32 w ! i) ids))))
                  (py_range_from 0 (length X) (nat batch_size)))"
proof -
  have f: "fancy_index X ids = Inr (map (\<lambda>i. X ! i) ids)"
    "fancy_index y ids = Inr (map (\<lambda>i. y ! i) ids)"
    "fancy_index w ids = Inr (map (\<lambda>i. w ! i) ids)"
    using assms(2-4) by (simp_all add: fancy_index_perm [of ids "length X"])
  have "set ids = {0..<length X}"
    using assms(2) mset_eq_setD [of ids "[0..<length X]"] by simp
  then have r: "\<forall>i \<in> set ids. i < length X" "\<forall>i \<in> set ids. i < length y"
      "\<forall>i \<in> set ids. i < length w"
    using assms(3,4) by simp_all
  have c: "map (map to_float32) (map (\<lambda>i. X ! i) ids) = map (\<lambda>i. map (map to_float32) X ! i) ids"
    "map to_float32 (map (\<lambda>i. y ! i) ids) = map (\<lambda>i. map to_float32 y ! i) ids"
    "map to_float32 (map (\<lambda>i. w ! i) ids) = map (\<lambda>i. map to_float32 w ! i) ids"
    using r by (simp_all only: nth_map_ids)
  have g: "getBatches X y w batch_size (Some ids)
           = mapE (\<lambda>i_picture.
                  let batch_X = slice i_picture (i_picture + nat batch_size) (map (\<lambda>i. X ! i) ids);
                      batch_y = slice i_picture (i_picture + nat batch_size) (map (\<lambda>i. y ! i) ids);
                      batch_w = slice i_picture (i_picture + nat batch_size) (map (\<lambda>i. w ! i) ids)
                  in bindE (torch_float_rows (shape1 X) batch_X) (\<lambda>X_torch.
                       Inr (X_torch, map to_float32 batch_y, map to_float32 batch_w)))
               (py_range_from 0 (length X) (nat batch_size))"
    using assms(1) by (simp add: getBatches_def bindE_def py_range0_def f)
  show ?thesis
    by (simp only: g batches_converted [OF assms(1,5)] c)
qed

text \<open>
  Claim C3, as the code has it. For a two-dimensional \<open>X\<close> with at least one column,
  \<open>y\<close> and \<open>w\<close> of its length and a positive batch size, the batches yielded without
  shuffling number \<open>\<lceil>N / B\<rceil>\<close>, and their concatenation, in order, is \<open>X\<close>, \<open>y\<close> and
  \<open>w\<close> converted entry by entry to single precision. With shuffling by a permutation of
  the row indices, the batches hold the same multiset of (row, label, weight) triples
  as the converted input: one permutation moves the three arrays together.
\<close>

theorem getBatches_preserves_float32_rows:
  assumes "length y = length X" and "length w = length X" and "0 < batch_size"
    and "[] \<notin> set X"
  shows "(\<exists>bs. getBatches X y w batch_size None = Inr bs
            \<and> int (length bs) = \<lceil>real (length X) / real_of_int batch_size\<rceil>
            \<and> concat (map fst bs) = map (map to_float32) X
            \<and> concat (map (fst \<circ> snd) bs) = map to_float32 y
            \<and> concat (map (snd \<circ> snd) bs) = map to_float32 w)
       \<and> (\<forall>shuffle_ids. mset shuffle_ids = mset [0..<length X] \<longrightarrow>
            (\<exists>bs. getBatches X y w batch_size (Some shuffle_ids) = Inr bs
               \<and> mset (rows_of_batches bs)
                   = mset (zip (map (map to_float32) X)
                               (zip (map to_float32 y) (map to_float32 w)))))"
proof (intro conjI allI impI)
  define b where "b = nat batch_size"
  have b: "0 < b" "batch_size = int b" using assms(3) by (simp_all add: b_def)
  let ?X = "map (map to_float32) X" and ?y = "map to_float32 y" and ?w = "map to_float32 w"
  let ?bs = "map (\<lambda>i. (take b (drop i ?X), take b (drop i ?y), take b (drop i ?w)))
                  (py_range_from 0 (length X) b)"
  have run: "getBatches X y w batch_size None = Inr ?bs"
    using getBatches_unshuffled [OF assms(3,4), of y w] by (simp add: b_def)
  have len: "int (length ?bs) = \<lceil>real (length X) / real_of_int batch_size\<rceil>"
    using length_py_range_from [OF b(1), of 0 "length X"] ceiling_div_nat [OF b(1), of "length X"]
    by (simp add: b(2))
  have cx: "concat (map fst ?bs) = ?X"
    using concat_slices [OF b(1), of ?X 0] by (simp add: comp_def)
  have cy: "concat (map (fst \<circ> snd) ?bs) = ?y"
    using concat_slices [OF b(1), of ?y 0] assms(1) by (simp add: comp_def)
  have cw: "concat (map (snd \<circ> snd) ?bs) = ?w"
    using concat_slices [OF b(1), of ?w 0] assms(2) by (simp add: comp_def)
  show "\<exists>bs. getBatches X y w batch_size None = Inr bs
            \<and> int (length bs) = \<lceil>real (length X) / real_of_int batch_size\<rceil>
            \<and> concat (map fst bs) = map (map to_float32) X
            \<and> concat (map (fst \<circ> snd) bs) = map to_float32 y
            \<and> concat (map (snd \<circ> snd) bs) = map to_float32 w"
    using run len cx cy cw by blast
next
  fix shuffle_ids :: "nat list"
  assume perm: "mset shuffle_ids = mset [0..<length X]"
  define b where "b = nat batch_size"
  have b: "0 < b" using assms(3) by (simp add: b_def)
  let ?X32 = "map (map to_float32) X" and ?y32 = "map to_float32 y" and ?w32 = "map to_float32 w"
  let ?X = "map (\<lambda>i. ?X32 ! i) shuffle_ids" and ?y = "map (\<lambda>i. ?y32 ! i) shuffle_ids"
    and ?w = "map (\<lambda>i. ?w32 ! i) shuffle_ids"
  let ?bs = "map (\<lambda>i. (take b (drop i ?X), take b (drop i ?y), take b (drop i ?w)))
                  (py_range_from 0 (length X) b)"
  have "length shuffle_ids = length [0..<length X]"
    using perm by (rule mset_eq_length)
  then have lenX: "length ?X = length X" by simp
  have run: "getBatches X y w batch_size (Some shuffle_ids) = Inr ?bs"
    using getBatches_shuffled [OF assms(3) perm assms(1,2,4)] by (simp add: b_def)
  have "rows_of_batches ?bs = zip ?X (zip ?y ?w)"
    using rows_of_slices [OF b, of ?y ?X ?w] lenX by simp
  moreover have "mset (zip ?X (zip ?y ?w)) = mset (zip ?X32 (zip ?y32 ?w32))"
    using mset_fancy_rows [of shuffle_ids ?X32 ?y32 ?w32] perm assms(1,2) by simp
  ultimately have "mset (rows_of_batches ?bs) = mset (zip ?X32 (zip ?y32 ?w32))"
    by simp
  with run show "\<exists>bs. getBatches X y w batch_size (Some shuffle_ids) = Inr bs
               \<and> mset (rows_of_batches bs)
                   = mset (zip (map (map to_float32) X)
                               (zip (map to_float32 y) (map to_float32 w)))"
    by blast
qed

theorem getBatches_preserves_float32_rows_witness:
  "getBatches [[1, 2], [3, 4], [5, 6]] [1, 0, 1] [7, 8, 9] 2 None
     = Inr [([[Fin 1, Fin 2], [Fin 3, Fin 4]], [Fin 1, Fin 0], [Fin 7, Fin 8]),
            ([[Fin 5, Fin 6]], [Fin 1], [Fin 9])]
   \<and> (\<exists>bs. getBatches [[1, 2], [3, 4], [5, 6]] [1, 0, 1] [7, 8, 9] 2 (Some [2, 0, 1]) = Inr bs
          \<and> mset (rows_of_batches bs)
              = mset (zip (map (map to_float32) [[1, 2], [3, 4], [5, 6]])
                          (zip (map to_float32 [1, 0, 1]) (map to_float32 [7, 8, 9]))))"
proof -
  let ?X = "[[1, 2], [3, 4], [5, 6 :: real]]"
  have h1: "length [1, 0, 1 :: real] = length ?X" by simp
  have h2: "length [7, 8, 9 :: real] = length ?X" by simp
  have h3: "(0::int) < 2" by simp
  have h4: "[] \<notin> set ?X" by simp
  have p: "mset [2, 0, 1 :: nat] = mset [0..<length ?X]"
    by (simp add: upt_rec)
  have run: "getBatches ?X [1, 0, 1] [7, 8, 9] 2 None
     = Inr [([[Fin 1, Fin 2], [Fin 3, Fin 4]], [Fin 1, Fin 0], [Fin 7, Fin 8]),
            ([[Fin 5, Fin 6]], [Fin 1], [Fin 9])]"
    by (simp add: getBatches_def bindE_def py_range0_def slice_def py_range_from.simps
                  torch_float_rows_def shape1_def)
  from getBatches_preserves_float32_rows [OF h1 h2 h3 h4] p run show ?thesis
    by blast
qed

text \<open>
  Against claim C3 as stated: the entry \<open>2^24 + 1\<close> of \<open>X\<close> is a double and not a
  single-precision number; the batch holds \<open>2^24\<close> in its place, so the concatenation
  of the batches is not \<open>X\<close>.
\<close>

theorem getBatches_rounds_to_float32:
  "getBatches [[16777217]] [1] [1] 1 None = Inr [([[Fin 16777216]], [Fin 1], [Fin 1])]
   \<and> concat (map fst [([[Fin 16777216]], [Fin 1], [Fin 1 :: npfloat])])
       \<noteq> map (map Fin) [[16777217]]"
  by (simp add: getBatches_def bindE_def py_range0_def slice_def py_range_from.simps
                torch_float_rows_def shape1_def to_float32_16777217)





section \<open>Properties of background inflation\<close>

lemma bool_index_Nil [simp]: "bool_index [] xs = []" "bool_index msk [] = []"
  by (simp_all add: bool_index_def)

lemma bool_index_Cons [simp]:
  "bool_index (b # msk) (x # xs) = (if b then x # bool_index msk xs else bool_index msk xs)"
  by (simp add: bool_index_def)

lemma bool_index_map_self: "bool_index (map P ys) ys = filter P ys"
  by (induction ys) simp_all

lemma length_bool_index:
  "length xs = length ys \<Longrightarrow> length (bool_index (map P ys) xs) = length (filter P ys)"
  by (induction xs ys rule: list_induct2) simp_all

lemma inflate_loop_blocks:
  "inflate_loop ms X_bkg y_bkg w_bkg (Xs, ys, ws) =
     (Xs @ map (\<lambda>m. map (\<lambda>r. r\<lparr>mass := m\<rparr>) X_bkg) ms,
      ys @ map (\<lambda>m. y_bkg) ms,
      ws @ map (\<lambda>m. w_bkg) ms)"
  by (induction ms arbitrary: Xs ys ws) simp_all

lemma inflate_blocks:
  "inflateBkgWithMasses masses X y w =
     (bool_index (is_sig y) X @ concat (map (\<lambda>m. map (\<lambda>r. r\<lparr>mass := m\<rparr>) (bool_index (is_bkg y) X)) masses),
      bool_index (is_sig y) y @ concat (map (\<lambda>m. bool_index (is_bkg y) y) masses),
      bool_index (is_sig y) w @ concat (map (\<lambda>m. bool_index (is_bkg y) w) masses))"
  by (simp add: inflateBkgWithMasses_def inflate_loop_blocks)

lemma filter_concat_const:
  "filter P (concat (map (\<lambda>m. ys) ms)) = concat (map (\<lambda>m. filter P ys) ms)"
  by (induction ms) simp_all

lemma length_concat_const: "length (concat (map (\<lambda>m. ys) ms)) = length ys * length ms"
  by (induction ms) simp_all

lemma sig_labels: "bool_index (is_sig y) y = filter (\<lambda>l. l = 1) y"
  by (simp add: is_sig_def bool_index_map_self)

lemma bkg_labels: "bool_index (is_bkg y) y = filter (\<lambda>l. l = 0) y"
  by (simp add: is_bkg_def bool_index_map_self)

lemma filter_filter_none: "(\<And>x. P x \<Longrightarrow> \<not> Q x) \<Longrightarrow> filter Q (filter P xs) = []"
  by (induction xs) simp_all

lemma inflate_nsig:
  "nsig (fst (snd (inflateBkgWithMasses masses X y w))) = nsig y"
proof -
  have "filter (\<lambda>l. l = 1) (filter (\<lambda>l::int. l = 0) y) = []"
    by (rule filter_filter_none) simp
  then show ?thesis
    by (simp add: inflate_blocks nsig_def sig_labels bkg_labels filter_concat_const)
qed

lemma inflate_nbkg:
  "nbkg (fst (snd (inflateBkgWithMasses masses X y w))) = nbkg y * length masses"
proof -
  have "filter (\<lambda>l. l = 0) (filter (\<lambda>l::int. l = 1) y) = []"
    by (rule filter_filter_none) simp
  then show ?thesis
    by (simp add: inflate_blocks nbkg_def sig_labels bkg_labels filter_concat_const
                  length_concat_const)
qed

lemma zip_concat_blocks:
  assumes "length Xb = length yb"
  shows "zip (concat (map (\<lambda>m. map (f m) Xb) ms)) (concat (map (\<lambda>m. yb) ms))
         = concat (map (\<lambda>m. zip (map (f m) Xb) yb) ms)"
  using assms by (induction ms) simp_all

lemma count_sig_part:
  assumes "length X = length y"
  shows "filter (\<lambda>(r, l). l = 0 \<and> Q r) (zip (bool_index (is_sig y) X) (bool_index (is_sig y) y)) = []"
  using assms by (induction X y rule: list_induct2) (simp_all add: is_sig_def)

lemma count_block:
  assumes "length Xb = length yb" "\<forall>l \<in> set yb. l = 0"
  shows "length (filter (\<lambda>(r, l). l = 0 \<and> mass r = m) (zip (map (\<lambda>r. r\<lparr>mass := m'\<rparr>) Xb) yb))
         = (if m' = m then length yb else 0)"
  using assms by (induction Xb yb rule: list_induct2) auto

lemma count_list_distinct: "distinct xs \<Longrightarrow> x \<in> set xs \<Longrightarrow> count_list xs x = 1"
  by (induction xs) auto

lemma count_blocks:
  assumes "length Xb = length yb" "\<forall>l \<in> set yb. l = 0"
  shows "length (filter (\<lambda>(r, l). l = 0 \<and> mass r = m)
            (concat (map (\<lambda>m'. zip (map (\<lambda>r. r\<lparr>mass := m'\<rparr>) Xb) yb) ms)))
         = length yb * count_list ms m"
  using assms by (induction ms) (simp_all add: count_block)

lemma inflate_nbkg_at:
  assumes "length X = length y"
  shows "nbkg_at m (fst (inflateBkgWithMasses masses X y w)) (fst (snd (inflateBkgWithMasses masses X y w)))
         = nbkg y * count_list masses m"
proof -
  have len: "length (bool_index (is_bkg y) X) = length (bool_index (is_bkg y) y)"
    using assms by (simp add: is_bkg_def length_bool_index bool_index_map_self)
  have lens: "length (bool_index (is_sig y) X) = length (bool_index (is_sig y) y)"
    using assms by (simp add: is_sig_def length_bool_index bool_index_map_self)
  have zeros: "\<forall>l \<in> set (bool_index (is_bkg y) y). l = 0"
    by (simp add: bkg_labels)
  let ?Xs = "bool_index (is_sig y) X" and ?ys = "bool_index (is_sig y) y"
  let ?Xb = "bool_index (is_bkg y) X" and ?yb = "bool_index (is_bkg y) y"
  let ?P = "\<lambda>(r, l). l = 0 \<and> mass r = m"
  have "zip (fst (inflateBkgWithMasses masses X y w)) (fst (snd (inflateBkgWithMasses masses X y w)))
        = zip ?Xs ?ys @ zip (concat (map (\<lambda>m. map (\<lambda>r. r\<lparr>mass := m\<rparr>) ?Xb) masses))
                            (concat (map (\<lambda>m. ?yb) masses))"
    using lens by (simp add: inflate_blocks)
  also have "\<dots> = zip ?Xs ?ys @ concat (map (\<lambda>m'. zip (map (\<lambda>r. r\<lparr>mass := m'\<rparr>) ?Xb) ?yb) masses)"
    by (simp only: zip_concat_blocks [OF len])
  finally have "length (filter ?P (zip (fst (inflateBkgWithMasses masses X y w))
                                       (fst (snd (inflateBkgWithMasses masses X y w)))))
        = length (filter ?P (zip ?Xs ?ys))
          + length (filter ?P (concat (map (\<lambda>m'. zip (map (\<lambda>r. r\<lparr>mass := m'\<rparr>) ?Xb) ?yb) masses)))"
    by simp
  also have "\<dots> = length ?yb * count_list masses m"
    by (simp only: count_blocks [OF len zeros] count_sig_part [OF assms]) simp
  also have "\<dots> = nbkg y * count_list masses m"
    by (simp add: bkg_labels nbkg_def)
  finally show ?thesis
    by (simp only: nbkg_at_def)
qed

text \<open>
  Claim C2. For parallel \<open>X\<close>, \<open>y\<close>, \<open>w\<close> and pairwise different mass points, the inflated
  sample has the signal count of the input, the background count of the input times the
  number of mass points, for each mass point as many background rows with that mass as
  the input has background rows, and its rows are the signal rows followed by one block
  of background rows per mass point, in the order of \<open>train_masses\<close>.
\<close>

theorem inflateBkgWithMasses_counts_and_order:
  assumes "length y = length X" and "length w = length X" and "distinct train_masses"
  shows "(case inflateBkgWithMasses train_masses X y w of (X', y', w') \<Rightarrow>
           nsig y' = nsig y
         \<and> nbkg y' = nbkg y * length train_masses
         \<and> (\<forall>m \<in> set train_masses. nbkg_at m X' y' = nbkg y)
         \<and> X' = bool_index (is_sig y) X
                 @ concat (map (\<lambda>m. map (\<lambda>r. r\<lparr>mass := m\<rparr>) (bool_index (is_bkg y) X)) train_masses)
         \<and> y' = bool_index (is_sig y) y @ concat (map (\<lambda>m. bool_index (is_bkg y) y) train_masses)
         \<and> w' = bool_index (is_sig y) w @ concat (map (\<lambda>m. bool_index (is_bkg y) w) train_masses))"
proof -
  obtain X' y' w' where r: "inflateBkgWithMasses train_masses X y w = (X', y', w')"
    by (cases "inflateBkgWithMasses train_masses X y w") auto
  have c1: "nsig y' = nsig y"
    using inflate_nsig [of train_masses X y w] r by simp
  have c2: "nbkg y' = nbkg y * length train_masses"
    using inflate_nbkg [of train_masses X y w] r by simp
  have c3: "\<forall>m \<in> set train_masses. nbkg_at m X' y' = nbkg y"
  proof
    fix m assume "m \<in> set train_masses"
    then have "count_list train_masses m = 1"
      using assms(3) by (simp add: count_list_distinct)
    then show "nbkg_at m X' y' = nbkg y"
      using inflate_nbkg_at [of X y m train_masses w] assms(1) r by simp
  qed
  have c4: "X' = bool_index (is_sig y) X
                 @ concat (map (\<lambda>m. map (\<lambda>r. r\<lparr>mass := m\<rparr>) (bool_index (is_bkg y) X)) train_masses)"
    and c5: "y' = bool_index (is_sig y) y @ concat (map (\<lambda>m. bool_index (is_bkg y) y) train_masses)"
    and c6: "w' = bool_index (is_sig y) w @ concat (map (\<lambda>m. bool_index (is_bkg y) w) train_masses)"
    using r by (simp_all add: inflate_blocks)
  show ?thesis
    using c1 c2 c3 c4 c5 c6 by (simp add: r)
qed

theorem inflateBkgWithMasses_counts_and_order_witness:
  "inflateBkgWithMasses [1 / 2, 1]
      [\<lparr>feats = [3], mass = 1\<rparr>, \<lparr>feats = [4], mass = 0\<rparr>, \<lparr>feats = [5], mass = 0\<rparr>]
      [1, 0, 0] [2, 3, 4]
   = ([\<lparr>feats = [3], mass = 1\<rparr>,
       \<lparr>feats = [4], mass = 1 / 2\<rparr>, \<lparr>feats = [5], mass = 1 / 2\<rparr>,
       \<lparr>feats = [4], mass = 1\<rparr>, \<lparr>feats = [5], mass = 1\<rparr>],
      [1, 0, 0, 0, 0], [2, 3, 4, 3, 4])
   \<and> nsig [1, 0, 0, 0, 0] = nsig [1, 0, 0]
   \<and> nbkg [1, 0, 0, 0, 0] = nbkg [1, 0, 0] * length [1 / 2, 1 :: real]"
proof -
  let ?X = "[\<lparr>feats = [3], mass = 1\<rparr>, \<lparr>feats = [4], mass = 0\<rparr>, \<lparr>feats = [5], mass = 0\<rparr>]"
  have h1: "length [1, 0, 0 :: int] = length ?X" by simp
  have h2: "length [2, 3, 4 :: real] = length ?X" by simp
  have h3: "distinct [1 / 2, 1 :: real]" by simp
  have run: "inflateBkgWithMasses [1 / 2, 1] ?X [1, 0, 0] [2, 3, 4]
   = ([\<lparr>feats = [3], mass = 1\<rparr>,
       \<lparr>feats = [4], mass = 1 / 2\<rparr>, \<lparr>feats = [5], mass = 1 / 2\<rparr>,
       \<lparr>feats = [4], mass = 1\<rparr>, \<lparr>feats = [5], mass = 1\<rparr>],
      [1, 0, 0, 0, 0], [2, 3, 4, 3, 4])"
    by (simp add: inflateBkgWithMasses_def is_sig_def is_bkg_def)
  note T = inflateBkgWithMasses_counts_and_order [OF h1 h2 h3, unfolded run prod.case]
  have c1: "nsig [1, 0, 0, 0, 0] = nsig [1, 0, 0]"
    by (rule T [THEN conjunct1])
  have c2: "nbkg [1, 0, 0, 0, 0] = nbkg [1, 0, 0] * length [1 / 2, 1 :: real]"
    by (rule T [THEN conjunct2, THEN conjunct1])
  from run c1 c2 show ?thesis
    by (intro conjI)
qed

section \<open>Properties of weight balancing\<close>

subsection \<open>Finite weights\<close>

lemma bool_index_map: "bool_index msk (map f xs) = map f (bool_index msk xs)"
  by (induction msk xs rule: list_induct2') simp_all

lemma length_bool_index_le: "length (bool_index msk xs) \<le> length xs"
  by (induction msk xs rule: list_induct2') simp_all

lemma foldl_np_add_Fin: "foldl np_add (Fin a) (map Fin vs) = Fin (a + sum_list vs)"
  by (induction vs arbitrary: a) (simp_all add: add.assoc)

lemma py_sum_Fin: "py_sum (map Fin vs) = (if vs = [] then Py 0 else Np (Fin (sum_list vs)))"
  by (simp add: py_sum_def foldl_np_add_Fin)

lemma py_sum_selected:
  "py_sum (bool_index msk (map Fin w)) =
     (if bool_index msk w = [] then Py 0 else Np (Fin (wsum msk w)))"
  by (simp add: bool_index_map py_sum_Fin wsum_def)

lemma wsum_nonzero: "wsum msk w \<noteq> 0 \<Longrightarrow> bool_index msk w \<noteq> []"
  by (auto simp: wsum_def)

lemma py_sum_selected_nonzero:
  "wsum msk w \<noteq> 0 \<Longrightarrow> py_sum (bool_index msk (map Fin w)) = Np (Fin (wsum msk w))"
  by (simp add: py_sum_selected wsum_nonzero)

lemma scale_where_Fin: "scale_where msk (Np (Fin f)) (map Fin w) = map Fin (rscale msk f w)"
  by (induction msk w rule: list_induct2') (simp_all add: scale_where_def rscale_def)

lemma length_rscale: "length msk = length w \<Longrightarrow> length (rscale msk f w) = length w"
  by (simp add: rscale_def)

lemma length_scale_where: "length msk = length w \<Longrightarrow> length (scale_where msk f w) = length w"
  by (simp add: scale_where_def)

lemma rscale_nonneg:
  "0 \<le> f \<Longrightarrow> \<forall>v \<in> set w. 0 \<le> v \<Longrightarrow> \<forall>v \<in> set (rscale msk f w). 0 \<le> v"
  by (induction msk w rule: list_induct2') (simp_all add: rscale_def)

lemma rscale_one: "length msk = length w \<Longrightarrow> rscale msk 1 w = w"
  by (induction msk w rule: list_induct2) (simp_all add: rscale_def)

lemma wsum_rscale_same:
  "length msk = length w \<Longrightarrow> wsum msk (rscale msk f w) = wsum msk w * f"
  by (induction msk w rule: list_induct2) (simp_all add: wsum_def rscale_def algebra_simps)

lemma bool_index_rscale_disjoint:
  "list_all2 (\<lambda>p q. \<not> (p \<and> q)) msk msk' \<Longrightarrow> length w = length msk
     \<Longrightarrow> bool_index msk' (rscale msk f w) = bool_index msk' w"
proof (induction msk msk' arbitrary: w rule: list_all2_induct)
  case Nil
  then show ?case by (simp add: rscale_def)
next
  case (Cons p msk q msk')
  then obtain v vs where w: "w = v # vs" by (cases w) auto
  with Cons show ?case by (auto simp: rscale_def)
qed

lemma wsum_rscale_disjoint:
  "list_all2 (\<lambda>p q. \<not> (p \<and> q)) msk msk' \<Longrightarrow> length w = length msk
     \<Longrightarrow> wsum msk' (rscale msk f w) = wsum msk' w"
  by (simp add: wsum_def bool_index_rscale_disjoint)

lemma wsum_nonneg: "\<forall>v \<in> set w. 0 \<le> v \<Longrightarrow> 0 \<le> wsum msk w"
  by (induction msk w rule: list_induct2') (simp_all add: wsum_def)

lemma wsum_submask:
  "list_all2 (\<lambda>p q. p \<longrightarrow> q) msk msk' \<Longrightarrow> length w = length msk
     \<Longrightarrow> \<forall>v \<in> set w. 0 \<le> v \<Longrightarrow> wsum msk w \<le> wsum msk' w"
proof (induction msk msk' arbitrary: w rule: list_all2_induct)
  case Nil
  then show ?case by (simp add: wsum_def)
next
  case (Cons p msk q msk')
  then obtain v vs where w: "w = v # vs" by (cases w) auto
  have "wsum msk vs \<le> wsum msk' vs"
    using Cons w by simp
  with Cons(1) Cons(5) w show ?case by (auto simp: wsum_def)
qed

subsection \<open>The masks\<close>

lemma length_class_mask:
  "length X = length y \<Longrightarrow> length (mask_and (map (\<lambda>l. l = c) y) (mass_is m X)) = length y"
  by (simp add: mask_and_def mass_is_def)

lemma class_masks_disjoint:
  assumes "length X = length y" "c \<noteq> c' \<or> m \<noteq> m'"
  shows "list_all2 (\<lambda>p q. \<not> (p \<and> q))
           (mask_and (map (\<lambda>l. l = c) y) (mass_is m X))
           (mask_and (map (\<lambda>l. l = c') y) (mass_is m' X))"
  using assms by (auto simp: list_all2_conv_all_nth mask_and_def mass_is_def)

lemma class_mask_sub:
  assumes "length X = length y"
  shows "list_all2 (\<lambda>p q. p \<longrightarrow> q)
           (mask_and (map (\<lambda>l. l = c) y) (mass_is m X)) (map (\<lambda>l. l = c) y)"
  using assms by (auto simp: list_all2_conv_all_nth mask_and_def mass_is_def)

lemma classes_disjoint:
  assumes "c \<noteq> c'"
  shows "list_all2 (\<lambda>p q. \<not> (p \<and> q)) (map (\<lambda>l. l = c) y) (map (\<lambda>l. l = c') y)"
  using assms by (auto simp: list_all2_conv_all_nth)

lemma length_sig_at [simp]: "length X = length y \<Longrightarrow> length (sig_at m X y) = length y"
  by (simp add: sig_at_def is_sig_def length_class_mask)

lemma length_bkg_at [simp]: "length X = length y \<Longrightarrow> length (bkg_at m X y) = length y"
  by (simp add: bkg_at_def is_bkg_def length_class_mask)

lemma length_is_sig [simp]: "length (is_sig y) = length y"
  by (simp add: is_sig_def)

lemma length_is_bkg [simp]: "length (is_bkg y) = length y"
  by (simp add: is_bkg_def)

lemma sig_bkg_disjoint:
  "length X = length y \<Longrightarrow> list_all2 (\<lambda>p q. \<not> (p \<and> q)) (sig_at m X y) (bkg_at m' X y)"
  unfolding sig_at_def bkg_at_def is_sig_def is_bkg_def
  by (rule class_masks_disjoint) simp_all

lemma bkg_sig_disjoint:
  "length X = length y \<Longrightarrow> list_all2 (\<lambda>p q. \<not> (p \<and> q)) (bkg_at m X y) (sig_at m' X y)"
  unfolding sig_at_def bkg_at_def is_sig_def is_bkg_def
  by (rule class_masks_disjoint) simp_all

lemma sig_sig_disjoint:
  "length X = length y \<Longrightarrow> m \<noteq> m'
     \<Longrightarrow> list_all2 (\<lambda>p q. \<not> (p \<and> q)) (sig_at m X y) (sig_at m' X y)"
  unfolding sig_at_def is_sig_def
  by (rule class_masks_disjoint) simp_all

lemma bkg_bkg_disjoint:
  "length X = length y \<Longrightarrow> m \<noteq> m'
     \<Longrightarrow> list_all2 (\<lambda>p q. \<not> (p \<and> q)) (bkg_at m X y) (bkg_at m' X y)"
  unfolding bkg_at_def is_bkg_def
  by (rule class_masks_disjoint) simp_all

lemma is_sig_bkg_disjoint: "list_all2 (\<lambda>p q. \<not> (p \<and> q)) (is_sig y) (is_bkg y)"
  unfolding is_sig_def is_bkg_def by (rule classes_disjoint) simp

lemma is_bkg_sig_disjoint: "list_all2 (\<lambda>p q. \<not> (p \<and> q)) (is_bkg y) (is_sig y)"
  unfolding is_sig_def is_bkg_def by (rule classes_disjoint) simp

lemma sig_at_sub: "length X = length y \<Longrightarrow> list_all2 (\<lambda>p q. p \<longrightarrow> q) (sig_at m X y) (is_sig y)"
  unfolding sig_at_def is_sig_def by (rule class_mask_sub)

lemma bkg_at_sub: "length X = length y \<Longrightarrow> list_all2 (\<lambda>p q. p \<longrightarrow> q) (bkg_at m X y) (is_bkg y)"
  unfolding bkg_at_def is_bkg_def by (rule class_mask_sub)

subsection \<open>One pass of the loop\<close>

lemma mass_step_sums:
  fixes avg :: real
  assumes len: "length X = length y" "length w = length y"
    and S: "wsum (sig_at m X y) w \<noteq> 0" and B: "wsum (bkg_at m X y) w \<noteq> 0"
  defines "w1 \<equiv> rscale (sig_at m X y) (avg / wsum (sig_at m X y) w) w"
  defines "w2 \<equiv> rscale (bkg_at m X y) (avg / wsum (bkg_at m X y) w) w1"
  shows "wsum (bkg_at m X y) w1 = wsum (bkg_at m X y) w"
    and "wsum (sig_at m' X y) w2 = (if m' = m then avg else wsum (sig_at m' X y) w)"
    and "wsum (bkg_at m' X y) w2 = (if m' = m then avg else wsum (bkg_at m' X y) w)"
proof -
  have l1: "length w1 = length y"
    using len by (simp add: w1_def length_rscale)
  show b1: "wsum (bkg_at m X y) w1 = wsum (bkg_at m X y) w"
    unfolding w1_def using len by (simp add: wsum_rscale_disjoint [OF sig_bkg_disjoint])
  have s1: "wsum (sig_at m' X y) w1 = (if m' = m then avg else wsum (sig_at m' X y) w)"
  proof (cases "m' = m")
    case True
    then show ?thesis
      unfolding w1_def using len S by (simp add: wsum_rscale_same)
  next
    case False
    then have "m \<noteq> m'" by simp
    then show ?thesis
      unfolding w1_def using len False
      by (simp add: wsum_rscale_disjoint [OF sig_sig_disjoint])
  qed
  have "wsum (sig_at m' X y) w2 = wsum (sig_at m' X y) w1"
    unfolding w2_def using len l1 by (simp add: wsum_rscale_disjoint [OF bkg_sig_disjoint])
  with s1 show "wsum (sig_at m' X y) w2 = (if m' = m then avg else wsum (sig_at m' X y) w)"
    by simp
  show "wsum (bkg_at m' X y) w2 = (if m' = m then avg else wsum (bkg_at m' X y) w)"
  proof (cases "m' = m")
    case True
    have "wsum (bkg_at m X y) w2 = wsum (bkg_at m X y) w1 * (avg / wsum (bkg_at m X y) w)"
      unfolding w2_def using len l1 by (simp add: wsum_rscale_same)
    then show ?thesis
      using True b1 B by simp
  next
    case False
    then have ne: "m \<noteq> m'" by simp
    have "wsum (bkg_at m' X y) w2 = wsum (bkg_at m' X y) w1"
      unfolding w2_def using len l1 ne by (simp add: wsum_rscale_disjoint [OF bkg_bkg_disjoint])
    also have "\<dots> = wsum (bkg_at m' X y) w"
      unfolding w1_def using len by (simp add: wsum_rscale_disjoint [OF sig_bkg_disjoint])
    finally show ?thesis using False by simp
  qed
qed

lemma equalise_loop_step:
  assumes "wsum (sig_at m X y) w \<noteq> 0" and "wsum (bkg_at m X y) w \<noteq> 0"
    and "length X = length y" "length w = length y"
  shows "equalise_loop (m # ms) (Np (Fin avg)) X y (map Fin w) =
         equalise_loop ms (Np (Fin avg)) X y
           (map Fin (rscale (bkg_at m X y) (avg / wsum (bkg_at m X y) w)
                       (rscale (sig_at m X y) (avg / wsum (sig_at m X y) w) w)))"
proof -
  let ?w1 = "rscale (sig_at m X y) (avg / wsum (sig_at m X y) w) w"
  have b1: "wsum (bkg_at m X y) ?w1 = wsum (bkg_at m X y) w"
    using mass_step_sums(1) [OF assms(3,4,1,2)] .
  have p1: "py_sum (bool_index (sig_at m X y) (map Fin w)) = Np (Fin (wsum (sig_at m X y) w))"
    using assms(1) by (simp add: py_sum_selected_nonzero)
  have p2: "py_sum (bool_index (bkg_at m X y) (map Fin ?w1)) = Np (Fin (wsum (bkg_at m X y) w))"
    using assms(2) b1 by (simp add: py_sum_selected_nonzero)
  show ?thesis
    using assms(1,2) by (simp add: p1 bindE_def Let_def scale_where_Fin p2)
qed

lemma equalise_loop_finite:
  assumes "length X = length y" "length w = length y" "0 < avg" "\<forall>v \<in> set w. 0 \<le> v"
    and "\<forall>m \<in> set ms. 0 < wsum (sig_at m X y) w \<and> 0 < wsum (bkg_at m X y) w"
  shows "\<exists>w'. equalise_loop ms (Np (Fin avg)) X y (map Fin w) = Inr (map Fin w')
           \<and> length w' = length y \<and> (\<forall>v \<in> set w'. 0 \<le> v)
           \<and> (\<forall>m. wsum (sig_at m X y) w' = (if m \<in> set ms then avg else wsum (sig_at m X y) w)
                 \<and> wsum (bkg_at m X y) w' = (if m \<in> set ms then avg else wsum (bkg_at m X y) w))"
  using assms
proof (induction ms arbitrary: w)
  case Nil
  then show ?case by (intro exI [of _ w]) simp
next
  case (Cons m ms)
  let ?S = "wsum (sig_at m X y) w" and ?B = "wsum (bkg_at m X y) w"
  let ?w1 = "rscale (sig_at m X y) (avg / ?S) w"
  let ?w2 = "rscale (bkg_at m X y) (avg / ?B) ?w1"
  have S: "0 < ?S" and B: "0 < ?B" using Cons.prems(5) by simp_all
  then have S0: "?S \<noteq> 0" and B0: "?B \<noteq> 0" by simp_all
  note sums = mass_step_sums [OF Cons.prems(1,2) S0 B0, where avg = avg]
  have l2: "length ?w2 = length y"
    using Cons.prems(1,2) by (simp add: length_rscale)
  have n1: "\<forall>v \<in> set ?w1. 0 \<le> v"
    using Cons.prems(3,4) S by (intro rscale_nonneg) simp_all
  have n2: "\<forall>v \<in> set ?w2. 0 \<le> v"
  proof (rule rscale_nonneg)
    show "0 \<le> avg / ?B" using Cons.prems(3) B by simp
    show "\<forall>v \<in> set ?w1. 0 \<le> v" by (rule n1)
  qed
  have pos: "\<forall>m' \<in> set ms. 0 < wsum (sig_at m' X y) ?w2 \<and> 0 < wsum (bkg_at m' X y) ?w2"
    using Cons.prems(3,5) by (simp add: sums(2,3))
  from Cons.IH [OF Cons.prems(1) l2 Cons.prems(3) n2 pos]
  obtain w' where w': "equalise_loop ms (Np (Fin avg)) X y (map Fin ?w2) = Inr (map Fin w')"
      "length w' = length y" "\<forall>v \<in> set w'. 0 \<le> v"
      "\<forall>m'. wsum (sig_at m' X y) w' = (if m' \<in> set ms then avg else wsum (sig_at m' X y) ?w2)
           \<and> wsum (bkg_at m' X y) w' = (if m' \<in> set ms then avg else wsum (bkg_at m' X y) ?w2)"
    by blast
  have run: "equalise_loop (m # ms) (Np (Fin avg)) X y (map Fin w) = Inr (map Fin w')"
    using equalise_loop_step [OF S0 B0 Cons.prems(1,2), where ms = ms and avg = avg] w'(1) by simp
  have "\<forall>m'. wsum (sig_at m' X y) w' = (if m' \<in> set (m # ms) then avg else wsum (sig_at m' X y) w)
           \<and> wsum (bkg_at m' X y) w' = (if m' \<in> set (m # ms) then avg else wsum (bkg_at m' X y) w)"
    using w'(4) by (simp add: sums(2,3))
  with run w'(2,3) show ?case by blast
qed

subsection \<open>The per-mass stage and the class stage on balanced input\<close>

lemma balanced_totals:
  assumes len: "length X = length y" "length w = length y"
    and bal: "balanced_input train_masses X w y"
  shows "0 < wsum (is_sig y) w" and "0 < wsum (is_bkg y) w"
proof -
  obtain m where m: "m \<in> set train_masses"
    using bal by (cases train_masses) (auto simp: balanced_input_def)
  have nn: "\<forall>v \<in> set w. 0 \<le> v"
    using bal by (simp add: balanced_input_def list_all_iff)
  have pos: "0 < wsum (sig_at m X y) w" "0 < wsum (bkg_at m X y) w"
    using bal m by (auto simp: balanced_input_def list_all_iff)
  have "wsum (sig_at m X y) w \<le> wsum (is_sig y) w"
    using len nn by (intro wsum_submask [OF sig_at_sub]) simp_all
  with pos(1) show "0 < wsum (is_sig y) w" by simp
  have "wsum (bkg_at m X y) w \<le> wsum (is_bkg y) w"
    using len nn by (intro wsum_submask [OF bkg_at_sub]) simp_all
  with pos(2) show "0 < wsum (is_bkg y) w" by simp
qed

lemma equalise_masses_balanced:
  assumes len: "length X = length y" "length w = length y"
    and bal: "balanced_input train_masses X w y"
  defines "avg \<equiv> wsum (is_sig y) w / real (length train_masses)"
  shows "\<exists>w1. equalise_masses train_masses X (map Fin w) y = Inr (map Fin w1)
           \<and> length w1 = length y \<and> (\<forall>v \<in> set w1. 0 \<le> v) \<and> 0 < avg
           \<and> (\<forall>m \<in> set train_masses. wsum (sig_at m X y) w1 = avg \<and> wsum (bkg_at m X y) w1 = avg)"
proof -
  have n: "0 < real (length train_masses)"
    using bal by (simp add: balanced_input_def)
  have T: "0 < wsum (is_sig y) w" and B: "0 < wsum (is_bkg y) w"
    using balanced_totals [OF len bal] by simp_all
  have avg: "0 < avg"
    using n T by (simp add: avg_def)
  have nn: "\<forall>v \<in> set w. 0 \<le> v"
    using bal by (simp add: balanced_input_def list_all_iff)
  have pos: "\<forall>m \<in> set train_masses. 0 < wsum (sig_at m X y) w \<and> 0 < wsum (bkg_at m X y) w"
    using bal by (simp add: balanced_input_def list_all_iff)
  have p1: "py_sum (bool_index (is_sig y) (map Fin w)) = Np (Fin (wsum (is_sig y) w))"
    using T by (simp add: py_sum_selected_nonzero)
  have p2: "py_sum (bool_index (is_bkg y) (map Fin w)) = Np (Fin (wsum (is_bkg y) w))"
    using B by (simp add: py_sum_selected_nonzero)
  have run: "equalise_masses train_masses X (map Fin w) y
             = equalise_loop train_masses (Np (Fin avg)) X y (map Fin w)"
    using n by (simp add: equalise_masses_def p1 p2 bindE_def avg_def)
  from equalise_loop_finite [OF len avg nn pos]
  obtain w1 where "equalise_loop train_masses (Np (Fin avg)) X y (map Fin w) = Inr (map Fin w1)"
      "length w1 = length y" "\<forall>v \<in> set w1. 0 \<le> v"
      "\<forall>m. wsum (sig_at m X y) w1 = (if m \<in> set train_masses then avg else wsum (sig_at m X y) w)
         \<and> wsum (bkg_at m X y) w1 = (if m \<in> set train_masses then avg else wsum (bkg_at m X y) w)"
    by blast
  with run avg show ?thesis
    by (intro exI [of _ w1]) simp
qed

lemma length_bool_index_same:
  "length w = length w' \<Longrightarrow> length (bool_index msk w) = length (bool_index msk w')"
proof (induction msk arbitrary: w w')
  case Nil
  then show ?case by simp
next
  case (Cons b msk)
  then show ?case by (cases w; cases w') simp_all
qed

lemma bool_index_nonempty_same:
  "length w = length w' \<Longrightarrow> bool_index msk w \<noteq> [] \<Longrightarrow> bool_index msk w' \<noteq> []"
  using length_bool_index_same [of w w' msk] by auto

lemma py_div_finite:
  "to_np a = Fin nu \<Longrightarrow> s \<noteq> 0 \<Longrightarrow> py_div a (Np (Fin s)) = Inr (Np (Fin (nu / s)))"
  by (cases a) auto

lemma equalise_classes_finite:
  fixes nrm :: "real option"
  assumes len: "length w1 = length y"
    and S: "wsum (is_sig y) w1 \<noteq> 0" and B: "wsum (is_bkg y) w1 \<noteq> 0"
  defines "nu \<equiv> (case nrm of None \<Rightarrow> wsum (is_sig y) w1 | Some r \<Rightarrow> r)"
  defines "w2 \<equiv> rscale (is_sig y) (nu / wsum (is_sig y) w1) w1"
  defines "w3 \<equiv> rscale (is_bkg y) (nu / wsum (is_bkg y) w1) w2"
  shows "equalise_classes (map Fin w1) y nrm = Inr (map Fin w3)"
    and "py_sum (bool_index (is_sig y) (map Fin w3)) = Np (Fin nu)"
    and "py_sum (bool_index (is_bkg y) (map Fin w3)) = Np (Fin nu)"
    and "nrm = None \<Longrightarrow> bool_index (is_sig y) w3 = bool_index (is_sig y) w1"
proof -
  have l2: "length w2 = length y"
    using len by (simp add: w2_def length_rscale)
  have l3: "length w3 = length y"
    using l2 by (simp add: w3_def length_rscale)
  have b2: "wsum (is_bkg y) w2 = wsum (is_bkg y) w1"
    unfolding w2_def using len by (simp add: wsum_rscale_disjoint [OF is_sig_bkg_disjoint])
  have s2: "wsum (is_sig y) w2 = nu"
    unfolding w2_def using len S by (simp add: wsum_rscale_same)
  have s3: "wsum (is_sig y) w3 = nu"
    unfolding w3_def using l2 s2 by (simp add: wsum_rscale_disjoint [OF is_bkg_sig_disjoint])
  have b3: "wsum (is_bkg y) w3 = nu"
    unfolding w3_def using l2 b2 B by (simp add: wsum_rscale_same)
  have p1: "py_sum (bool_index (is_sig y) (map Fin w1)) = Np (Fin (wsum (is_sig y) w1))"
    using S by (simp add: py_sum_selected_nonzero)
  have p2: "py_sum (bool_index (is_bkg y) (map Fin w2)) = Np (Fin (wsum (is_bkg y) w1))"
    using B b2 by (simp add: py_sum_selected_nonzero)
  define N where "N = (case nrm of None \<Rightarrow> py_sum (bool_index (is_sig y) (map Fin w1))
                        | Some r \<Rightarrow> Py r)"
  have N: "to_np N = Fin nu"
    by (cases nrm) (simp_all add: N_def nu_def p1)
  have d1: "py_div N (py_sum (bool_index (is_sig y) (map Fin w1)))
            = Inr (Np (Fin (nu / wsum (is_sig y) w1)))"
    using py_div_finite [OF N S] by (simp only: p1)
  have sc1: "scale_where (is_sig y) (Np (Fin (nu / wsum (is_sig y) w1))) (map Fin w1) = map Fin w2"
    by (simp only: scale_where_Fin w2_def)
  have d2: "py_div N (py_sum (bool_index (is_bkg y) (map Fin w2)))
            = Inr (Np (Fin (nu / wsum (is_bkg y) w1)))"
    using py_div_finite [OF N B] by (simp only: p2)
  have sc2: "scale_where (is_bkg y) (Np (Fin (nu / wsum (is_bkg y) w1))) (map Fin w2) = map Fin w3"
    by (simp only: scale_where_Fin w3_def)
  show "equalise_classes (map Fin w1) y nrm = Inr (map Fin w3)"
    unfolding equalise_classes_def Let_def N_def [symmetric]
    by (simp only: d1 bindE_def sum.case sc1 d2 sc2)
  have "bool_index (is_sig y) w3 \<noteq> []"
    using bool_index_nonempty_same [of w1 w3 "is_sig y"] wsum_nonzero [OF S] len l3 by simp
  then show "py_sum (bool_index (is_sig y) (map Fin w3)) = Np (Fin nu)"
    by (simp add: py_sum_selected s3)
  have "bool_index (is_bkg y) w3 \<noteq> []"
    using bool_index_nonempty_same [of w1 w3 "is_bkg y"] wsum_nonzero [OF B] len l3 by simp
  then show "py_sum (bool_index (is_bkg y) (map Fin w3)) = Np (Fin nu)"
    by (simp add: py_sum_selected b3)
  show "bool_index (is_sig y) w3 = bool_index (is_sig y) w1" if "nrm = None"
  proof -
    have "nu / wsum (is_sig y) w1 = 1"
      using that S by (simp add: nu_def)
    then have "w2 = w1"
      using len by (simp add: w2_def rscale_one)
    then show ?thesis
      unfolding w3_def using len by (simp add: bool_index_rscale_disjoint [OF is_bkg_sig_disjoint])
  qed
qed

lemma balanced_after_masses:
  assumes len: "length X = length y" "length w1 = length y"
    and ne: "train_masses \<noteq> []" and nn: "\<forall>v \<in> set w1. 0 \<le> v" and avg: "0 < avg"
    and eq: "\<forall>m \<in> set train_masses. wsum (sig_at m X y) w1 = avg \<and> wsum (bkg_at m X y) w1 = avg"
  shows "0 < wsum (is_sig y) w1" and "0 < wsum (is_bkg y) w1"
proof -
  obtain m where m: "m \<in> set train_masses"
    using ne by (cases train_masses) auto
  have "wsum (sig_at m X y) w1 \<le> wsum (is_sig y) w1"
    using len nn by (intro wsum_submask [OF sig_at_sub]) simp_all
  with eq m avg show "0 < wsum (is_sig y) w1" by simp
  have "wsum (bkg_at m X y) w1 \<le> wsum (is_bkg y) w1"
    using len nn by (intro wsum_submask [OF bkg_at_sub]) simp_all
  with eq m avg show "0 < wsum (is_bkg y) w1" by simp
qed

text \<open>
  Claim C6. On balanced input the per-mass stage returns, and afterwards at every
  configured mass point the signal weights sum to \<open>avg_sig_sumw\<close>, the total signal
  weight of the input divided by the number of mass points, and so do the background
  weights: their factor has the signal average as its numerator.
\<close>

theorem equalise_masses_group_sums:
  assumes "length X = length y" and "length w = length y"
    and "balanced_input train_masses X w y"
  shows "\<exists>w1. equalise_masses train_masses X (map Fin w) y = Inr w1
           \<and> (\<forall>m \<in> set train_masses.
                 py_sum (bool_index (sig_at m X y) w1)
                   = Np (Fin (wsum (is_sig y) w / real (length train_masses)))
               \<and> py_sum (bool_index (bkg_at m X y) w1)
                   = Np (Fin (wsum (is_sig y) w / real (length train_masses))))"
proof -
  let ?avg = "wsum (is_sig y) w / real (length train_masses)"
  from equalise_masses_balanced [OF assms]
  obtain w1 where w1: "equalise_masses train_masses X (map Fin w) y = Inr (map Fin w1)"
      "0 < ?avg"
      "\<forall>m \<in> set train_masses. wsum (sig_at m X y) w1 = ?avg \<and> wsum (bkg_at m X y) w1 = ?avg"
    by blast
  have "\<forall>m \<in> set train_masses.
          py_sum (bool_index (sig_at m X y) (map Fin w1)) = Np (Fin ?avg)
        \<and> py_sum (bool_index (bkg_at m X y) (map Fin w1)) = Np (Fin ?avg)"
  proof
    fix m assume m: "m \<in> set train_masses"
    have s: "wsum (sig_at m X y) w1 = ?avg" and b: "wsum (bkg_at m X y) w1 = ?avg"
      using w1(3) m by simp_all
    have "0 < wsum (sig_at m X y) w1" "0 < wsum (bkg_at m X y) w1"
      using w1(2) by (simp_all only: s b)
    then have s0: "wsum (sig_at m X y) w1 \<noteq> 0" and b0: "wsum (bkg_at m X y) w1 \<noteq> 0"
      by simp_all
    show "py_sum (bool_index (sig_at m X y) (map Fin w1)) = Np (Fin ?avg)
             \<and> py_sum (bool_index (bkg_at m X y) (map Fin w1)) = Np (Fin ?avg)"
      using py_sum_selected_nonzero [OF s0] py_sum_selected_nonzero [OF b0]
      by (simp only: s b)
  qed
  with w1(1) show ?thesis by blast
qed

text \<open>
  Claim C1. On balanced input (at least one mass point, no negative weight, positive
  signal and background weight sums at every configured mass point), for every given
  \<open>norm\<close> the call returns weights whose signal sum and whose background sum are both
  \<open>norm\<close>. With \<open>norm\<close> omitted, \<open>norm\<close> is the signal sum \<open>s\<close> left by the per-mass
  stage: the signal weights are those of the per-mass stage, and both sums are \<open>s\<close>.
\<close>

theorem equaliseWeights_sums_to_norm:
  assumes "length X = length y" and "length w = length y"
    and "balanced_input train_masses X w y"
  shows "(\<forall>r. \<exists>w'. equaliseWeights train_masses X (map Fin w) y (Some r) = Inr w'
             \<and> py_sum (bool_index (is_sig y) w') = Np (Fin r)
             \<and> py_sum (bool_index (is_bkg y) w') = Np (Fin r))
       \<and> (\<exists>w1 s w'. equalise_masses train_masses X (map Fin w) y = Inr w1
             \<and> py_sum (bool_index (is_sig y) w1) = Np (Fin s)
             \<and> equaliseWeights train_masses X (map Fin w) y None = Inr w'
             \<and> bool_index (is_sig y) w' = bool_index (is_sig y) w1
             \<and> py_sum (bool_index (is_sig y) w') = Np (Fin s)
             \<and> py_sum (bool_index (is_bkg y) w') = Np (Fin s))"
proof -
  let ?avg = "wsum (is_sig y) w / real (length train_masses)"
  from equalise_masses_balanced [OF assms]
  obtain w1 where w1: "equalise_masses train_masses X (map Fin w) y = Inr (map Fin w1)"
      "length w1 = length y" "\<forall>v \<in> set w1. 0 \<le> v" "0 < ?avg"
      "\<forall>m \<in> set train_masses. wsum (sig_at m X y) w1 = ?avg \<and> wsum (bkg_at m X y) w1 = ?avg"
    by blast
  have ne: "train_masses \<noteq> []"
    using assms(3) by (simp add: balanced_input_def)
  have S: "0 < wsum (is_sig y) w1" and B: "0 < wsum (is_bkg y) w1"
    using balanced_after_masses [OF assms(1) w1(2) ne w1(3,4,5)] by simp_all
  then have S0: "wsum (is_sig y) w1 \<noteq> 0" and B0: "wsum (is_bkg y) w1 \<noteq> 0"
    by simp_all
  have run: "equaliseWeights train_masses X (map Fin w) y nrm = equalise_classes (map Fin w1) y nrm"
    for nrm
    by (simp add: equaliseWeights_def w1(1) bindE_def)
  have given: "\<exists>w'. equaliseWeights train_masses X (map Fin w) y (Some r) = Inr w'
             \<and> py_sum (bool_index (is_sig y) w') = Np (Fin r)
             \<and> py_sum (bool_index (is_bkg y) w') = Np (Fin r)" for r
    using equalise_classes_finite(1,2,3) [OF w1(2) S0 B0, where nrm = "Some r"] run [of "Some r"]
    by simp
  have s1: "py_sum (bool_index (is_sig y) (map Fin w1)) = Np (Fin (wsum (is_sig y) w1))"
    by (rule py_sum_selected_nonzero [OF S0])
  have omitted: "\<exists>w'. equaliseWeights train_masses X (map Fin w) y None = Inr w'
             \<and> bool_index (is_sig y) w' = bool_index (is_sig y) (map Fin w1)
             \<and> py_sum (bool_index (is_sig y) w') = Np (Fin (wsum (is_sig y) w1))
             \<and> py_sum (bool_index (is_bkg y) w') = Np (Fin (wsum (is_sig y) w1))"
    using equalise_classes_finite [OF w1(2) S0 B0, where nrm = None] run [of None]
    by (simp add: bool_index_map)
  from given w1(1) s1 omitted show ?thesis by blast
qed

subsection \<open>When weight balancing raises\<close>

lemma bool_index_empty_iff:
  "length msk = length w \<Longrightarrow> (bool_index msk w = []) = (True \<notin> set msk)"
  by (induction msk w rule: list_induct2) auto

lemma nsig_zero_iff: "(nsig y = 0) = (True \<notin> set (is_sig y))"
  by (auto simp: nsig_def is_sig_def filter_empty_conv)

lemma nbkg_zero_iff: "(nbkg y = 0) = (True \<notin> set (is_bkg y))"
  by (auto simp: nbkg_def is_bkg_def filter_empty_conv)

lemma mask_and_True: "True \<in> set (mask_and a b) \<Longrightarrow> True \<in> set a"
  by (auto simp: mask_and_def dest: set_zip_leftD)

lemma py_sum_class:
  assumes "length w = length y"
  shows "py_sum (bool_index (is_sig y) w)
           = (if nsig y = 0 then Py 0 else Np (foldl np_add (Fin 0) (bool_index (is_sig y) w)))"
    and "py_sum (bool_index (is_bkg y) w)
           = (if nbkg y = 0 then Py 0 else Np (foldl np_add (Fin 0) (bool_index (is_bkg y) w)))"
  using assms by (simp_all add: py_sum_def bool_index_empty_iff nsig_zero_iff nbkg_zero_iff)

lemma py_sum_no_signal:
  assumes "length X = length y" "length w = length y" "nsig y = 0"
  shows "py_sum (bool_index (sig_at m X y) w) = Py 0"
proof -
  have "True \<notin> set (sig_at m X y)"
    using assms(3) mask_and_True [of "is_sig y" "mass_is m X"]
    by (auto simp: nsig_zero_iff sig_at_def)
  then show ?thesis
    using assms(1,2) by (simp add: py_sum_def bool_index_empty_iff)
qed

lemma equalise_loop_numpy_avg:
  assumes "length X = length y" "length w = length y"
  shows "\<exists>w'. equalise_loop ms (Np a) X y w = Inr w' \<and> length w' = length y"
  using assms
proof (induction ms arbitrary: w)
  case Nil
  then show ?case by simp
next
  case (Cons m ms)
  let ?f = "Np (np_div a (to_np (py_sum (bool_index (sig_at m X y) w))))"
  let ?w1 = "scale_where (sig_at m X y) ?f w"
  let ?g = "Np (np_div a (to_np (py_sum (bool_index (bkg_at m X y) ?w1))))"
  let ?w2 = "scale_where (bkg_at m X y) ?g ?w1"
  have "length ?w2 = length y"
    using Cons.prems by (simp add: length_scale_where)
  from Cons.IH [OF Cons.prems(1) this]
  show ?case by (simp add: bindE_def Let_def)
qed

lemma equalise_masses_raises:
  assumes "length X = length y" "length w = length y"
  shows "if nsig y = 0 \<or> nbkg y = 0 \<and> train_masses = []
         then equalise_masses train_masses X w y = Inl ZeroDivisionError
         else \<exists>w1. equalise_masses train_masses X w y = Inr w1 \<and> length w1 = length y"
proof (cases "nsig y = 0")
  case True
  show ?thesis
  proof (cases train_masses)
    case Nil
    with True show ?thesis
      using assms by (simp add: equalise_masses_def py_sum_class bindE_def)
  next
    case (Cons m ms)
    have "py_sum (bool_index (sig_at m X y) w) = Py 0"
      using py_sum_no_signal [OF assms True] .
    with True Cons show ?thesis
      using assms by (simp add: equalise_masses_def py_sum_class bindE_def)
  qed
next
  case False
  let ?a = "np_div (foldl np_add (Fin 0) (bool_index (is_sig y) w)) (Fin (real (length train_masses)))"
  from equalise_loop_numpy_avg [OF assms, of train_masses ?a]
  obtain w1 where "equalise_loop train_masses (Np ?a) X y w = Inr w1" "length w1 = length y"
    by blast
  with False show ?thesis
    using assms by (auto simp: equalise_masses_def py_sum_class bindE_def)
qed

lemma equalise_classes_raises:
  assumes "length w = length y" "nsig y \<noteq> 0"
  shows "if nbkg y = 0 \<and> nrm \<noteq> None
         then equalise_classes w y nrm = Inl ZeroDivisionError
         else \<exists>w'. equalise_classes w y nrm = Inr w' \<and> length w' = length y"
proof -
  have s: "py_sum (bool_index (is_sig y) w) = Np (foldl np_add (Fin 0) (bool_index (is_sig y) w))"
    using assms by (simp add: py_sum_class)
  show ?thesis
  proof (cases nrm)
    case None
    then show ?thesis
      using assms(1) by (simp add: equalise_classes_def s bindE_def Let_def length_scale_where)
  next
    case (Some r)
    let ?w1 = "scale_where (is_sig y)
                 (Np (np_div (Fin r) (foldl np_add (Fin 0) (bool_index (is_sig y) w)))) w"
    have l1: "length ?w1 = length y"
      using assms(1) by (simp add: length_scale_where)
    show ?thesis
      using Some assms(1) py_sum_class(2) [OF l1]
      by (simp add: equalise_classes_def s bindE_def Let_def length_scale_where)
  qed
qed

text \<open>
  Claim C7, as the code has it. \<open>equaliseWeights\<close> raises exactly when the sample has
  no signal event at all, or has no background event at all and either no mass point is
  configured or \<open>norm\<close> is given; the exception is then Python's \<open>ZeroDivisionError\<close>.
  In every other case it returns, also when a configured mass point has no signal or no
  background events or a weight sum of zero there: that division has a numpy operand,
  gives \<open>inf\<close> or \<open>nan\<close>, and the loop goes on.
\<close>

theorem equaliseWeights_raises_iff_class_missing:
  assumes "length X = length y" and "length w = length y"
  shows "if nsig y = 0 \<or> nbkg y = 0 \<and> (train_masses = [] \<or> nrm \<noteq> None)
         then equaliseWeights train_masses X w y nrm = Inl ZeroDivisionError
         else \<exists>w'. equaliseWeights train_masses X w y nrm = Inr w' \<and> length w' = length y"
proof (cases "nsig y = 0 \<or> nbkg y = 0 \<and> train_masses = []")
  case True
  then show ?thesis
    using equalise_masses_raises [OF assms, of train_masses]
    by (auto simp: equaliseWeights_def bindE_def)
next
  case False
  with equalise_masses_raises [OF assms, of train_masses]
  obtain w1 where w1: "equalise_masses train_masses X w y = Inr w1" "length w1 = length y"
    by auto
  have ns: "nsig y \<noteq> 0" using False by simp
  show ?thesis
    using equalise_classes_raises [OF w1(2) ns, of nrm] False
    by (auto simp: equaliseWeights_def w1(1) bindE_def)
qed

theorem equaliseWeights_raises_iff_class_missing_witness:
  "equaliseWeights [1, 2]
     [\<lparr>feats = [], mass = 1\<rparr>, \<lparr>feats = [], mass = 1\<rparr>, \<lparr>feats = [], mass = 2\<rparr>]
     [Fin 1, Fin 1, Fin 1] [0, 0, 0] (Some 1000) = Inl ZeroDivisionError
   \<and> (\<exists>w'. equaliseWeights [1, 2]
     [\<lparr>feats = [], mass = 1\<rparr>, \<lparr>feats = [], mass = 1\<rparr>, \<lparr>feats = [], mass = 2\<rparr>]
     [Fin 1, Fin 1, Fin 1] [1, 0, 0] (Some 1000) = Inr w' \<and> length w' = length [1, 0, 0 :: int])"
proof -
  let ?X = "[\<lparr>feats = [], mass = 1\<rparr>, \<lparr>feats = [], mass = 1\<rparr>, \<lparr>feats = [], mass = 2\<rparr>]"
  have h1: "length ?X = length [0, 0, 0 :: int]" and h1': "length ?X = length [1, 0, 0 :: int]"
    by simp_all
  have h2: "length [Fin 1, Fin 1, Fin 1] = length [0, 0, 0 :: int]"
    and h2': "length [Fin 1, Fin 1, Fin 1] = length [1, 0, 0 :: int]"
    by simp_all
  have a: "nsig [0, 0, 0] = 0" and b: "nsig [1, 0, 0] \<noteq> 0" "nbkg [1, 0, 0] \<noteq> 0"
    by (simp_all add: nsig_def nbkg_def)
  from equaliseWeights_raises_iff_class_missing [OF h1 h2, of "[1, 2]" "Some 1000"]
       equaliseWeights_raises_iff_class_missing [OF h1' h2', of "[1, 2]" "Some 1000"]
       a b
  show ?thesis by simp
qed

text \<open>
  Against claim C7 as stated: mass point 2 is configured and has no signal event, and
  the call returns finite weights instead of aborting.
\<close>

theorem equaliseWeights_missing_mass_point_returns:
  "bool_index (sig_at 2
       [\<lparr>feats = [], mass = 1\<rparr>, \<lparr>feats = [], mass = 1\<rparr>, \<lparr>feats = [], mass = 2\<rparr>] [1, 0, 0])
     [Fin 1, Fin 1, Fin 1] = []
   \<and> equaliseWeights [1, 2]
       [\<lparr>feats = [], mass = 1\<rparr>, \<lparr>feats = [], mass = 1\<rparr>, \<lparr>feats = [], mass = 2\<rparr>]
       [Fin 1, Fin 1, Fin 1] [1, 0, 0] (Some 1000)
     = Inr [Fin 1000, Fin 500, Fin 500]"
  by (simp add: equaliseWeights_def equalise_masses_def equalise_classes_def bindE_def
                py_sum_def sig_at_def bkg_at_def is_sig_def is_bkg_def mask_and_def mass_is_def
                scale_where_def inf_of_sign_def Let_def)

theorem equalise_masses_group_sums_witness:
  "balanced_input [1 / 2, 1]
     [\<lparr>feats = [], mass = 1 / 2\<rparr>, \<lparr>feats = [], mass = 1\<rparr>,
      \<lparr>feats = [], mass = 1 / 2\<rparr>, \<lparr>feats = [], mass = 1\<rparr>]
     [1, 3, 2, 6] [1, 1, 0, 0]
   \<and> equalise_masses [1 / 2, 1]
     [\<lparr>feats = [], mass = 1 / 2\<rparr>, \<lparr>feats = [], mass = 1\<rparr>,
      \<lparr>feats = [], mass = 1 / 2\<rparr>, \<lparr>feats = [], mass = 1\<rparr>]
     (map Fin [1, 3, 2, 6]) [1, 1, 0, 0] = Inr [Fin 2, Fin 2, Fin 2, Fin 2]
   \<and> py_sum (bool_index (bkg_at 1
        [\<lparr>feats = [], mass = 1 / 2\<rparr>, \<lparr>feats = [], mass = 1\<rparr>,
         \<lparr>feats = [], mass = 1 / 2\<rparr>, \<lparr>feats = [], mass = 1\<rparr>] [1, 1, 0, 0])
        [Fin 2, Fin 2, Fin 2, Fin 2])
      = Np (Fin (wsum (is_sig [1, 1, 0, 0]) [1, 3, 2, 6] / real (length [1 / 2, 1 :: real])))"
proof -
  let ?X = "[\<lparr>feats = [], mass = 1 / 2\<rparr>, \<lparr>feats = [], mass = 1\<rparr>,
             \<lparr>feats = [], mass = 1 / 2\<rparr>, \<lparr>feats = [], mass = 1\<rparr>]"
  have h1: "length ?X = length [1, 1, 0, 0 :: int]" by simp
  have h2: "length [1, 3, 2, 6 :: real] = length [1, 1, 0, 0 :: int]" by simp
  have h3: "balanced_input [1 / 2, 1] ?X [1, 3, 2, 6] [1, 1, 0, 0]"
    by (simp add: balanced_input_def wsum_def sig_at_def bkg_at_def is_sig_def is_bkg_def
                  mask_and_def mass_is_def)
  have run: "equalise_masses [1 / 2, 1] ?X (map Fin [1, 3, 2, 6]) [1, 1, 0, 0]
             = Inr [Fin 2, Fin 2, Fin 2, Fin 2]"
    by (simp add: equalise_masses_def bindE_def py_sum_def sig_at_def bkg_at_def is_sig_def
                  is_bkg_def mask_and_def mass_is_def scale_where_def Let_def)
  from equalise_masses_group_sums [OF h1 h2 h3] run
  have "py_sum (bool_index (bkg_at 1 ?X [1, 1, 0, 0]) [Fin 2, Fin 2, Fin 2, Fin 2])
      = Np (Fin (wsum (is_sig [1, 1, 0, 0]) [1, 3, 2, 6] / real (length [1 / 2, 1 :: real])))"
    by auto
  with h3 run show ?thesis by (intro conjI)
qed

theorem equaliseWeights_sums_to_norm_witness:
  "balanced_input [1 / 2, 1]
     [\<lparr>feats = [], mass = 1 / 2\<rparr>, \<lparr>feats = [], mass = 1\<rparr>,
      \<lparr>feats = [], mass = 1 / 2\<rparr>, \<lparr>feats = [], mass = 1\<rparr>]
     [1, 3, 2, 6] [1, 1, 0, 0]
   \<and> equaliseWeights [1 / 2, 1]
     [\<lparr>feats = [], mass = 1 / 2\<rparr>, \<lparr>feats = [], mass = 1\<rparr>,
      \<lparr>feats = [], mass = 1 / 2\<rparr>, \<lparr>feats = [], mass = 1\<rparr>]
     (map Fin [1, 3, 2, 6]) [1, 1, 0, 0] (Some 1000) = Inr [Fin 500, Fin 500, Fin 500, Fin 500]
   \<and> py_sum (bool_index (is_sig [1, 1, 0, 0]) [Fin 500, Fin 500, Fin 500, Fin 500]) = Np (Fin 1000)
   \<and> py_sum (bool_index (is_bkg [1, 1, 0, 0]) [Fin 500, Fin 500, Fin 500, Fin 500]) = Np (Fin 1000)
   \<and> equaliseWeights [1 / 2, 1]
     [\<lparr>feats = [], mass = 1 / 2\<rparr>, \<lparr>feats = [], mass = 1\<rparr>,
      \<lparr>feats = [], mass = 1 / 2\<rparr>, \<lparr>feats = [], mass = 1\<rparr>]
     (map Fin [1, 3, 2, 6]) [1, 1, 0, 0] None = Inr [Fin 2, Fin 2, Fin 2, Fin 2]
   \<and> py_sum (bool_index (is_bkg [1, 1, 0, 0]) [Fin 2, Fin 2, Fin 2, Fin 2])
       = py_sum (bool_index (is_sig [1, 1, 0, 0]) [Fin 2, Fin 2, Fin 2, Fin 2])"
proof -
  let ?X = "[\<lparr>feats = [], mass = 1 / 2\<rparr>, \<lparr>feats = [], mass = 1\<rparr>,
             \<lparr>feats = [], mass = 1 / 2\<rparr>, \<lparr>feats = [], mass = 1\<rparr>]"
  have h1: "length ?X = length [1, 1, 0, 0 :: int]" by simp
  have h2: "length [1, 3, 2, 6 :: real] = length [1, 1, 0, 0 :: int]" by simp
  have h3: "balanced_input [1 / 2, 1] ?X [1, 3, 2, 6] [1, 1, 0, 0]"
    by (simp add: balanced_input_def wsum_def sig_at_def bkg_at_def is_sig_def is_bkg_def
                  mask_and_def mass_is_def)
  have run: "equaliseWeights [1 / 2, 1] ?X (map Fin [1, 3, 2, 6]) [1, 1, 0, 0] (Some 1000)
             = Inr [Fin 500, Fin 500, Fin 500, Fin 500]"
    by (simp add: equaliseWeights_def equalise_masses_def equalise_classes_def bindE_def
                  py_sum_def sig_at_def bkg_at_def is_sig_def is_bkg_def mask_and_def mass_is_def
                  scale_where_def Let_def)
  from equaliseWeights_sums_to_norm [OF h1 h2 h3] run
  have "py_sum (bool_index (is_sig [1, 1, 0, 0]) [Fin 500, Fin 500, Fin 500, Fin 500]) = Np (Fin 1000)
      \<and> py_sum (bool_index (is_bkg [1, 1, 0, 0]) [Fin 500, Fin 500, Fin 500, Fin 500]) = Np (Fin 1000)"
    by (metis sum.inject(2))
  note given = this
  have run_none: "equaliseWeights [1 / 2, 1] ?X (map Fin [1, 3, 2, 6]) [1, 1, 0, 0] None
             = Inr [Fin 2, Fin 2, Fin 2, Fin 2]"
    by (simp add: equaliseWeights_def equalise_masses_def equalise_classes_def bindE_def
                  py_sum_def sig_at_def bkg_at_def is_sig_def is_bkg_def mask_and_def mass_is_def
                  scale_where_def Let_def)
  from equaliseWeights_sums_to_norm [OF h1 h2 h3] run_none
  have omitted: "py_sum (bool_index (is_bkg [1, 1, 0, 0]) [Fin 2, Fin 2, Fin 2, Fin 2])
       = py_sum (bool_index (is_sig [1, 1, 0, 0]) [Fin 2, Fin 2, Fin 2, Fin 2])"
    by (metis sum.inject(2))
  from h3 run given run_none omitted show ?thesis by (intro conjI) simp_all
qed

section \<open>Properties of the scheduling policy\<close>

lemma first_position_less:
  "v \<in> set xs \<Longrightarrow> length (takeWhile (\<lambda>x. x \<noteq> v) xs) < length xs"
  by (induction xs) auto

lemma best_loss_epoch_ok:
  assumes "history_ok losses"
  shows "\<exists>e. best_loss_epoch losses = Inr e \<and> 1 \<le> e \<and> e \<le> int (length losses)"
proof -
  let ?s = "map sum_list losses"
  have ne: "?s \<noteq> []" using assms by (simp add: history_ok_def)
  then have "Min (set ?s) \<in> set ?s"
    using Min_in [of "set ?s"] by simp
  then have found: "first_index (Min (set ?s)) ?s
                    = Inr (length (takeWhile (\<lambda>x. x \<noteq> Min (set ?s)) ?s))"
    by (simp only: first_index_def if_True)
  have "length (takeWhile (\<lambda>x. x \<noteq> Min (set ?s)) ?s) < length ?s"
    using \<open>Min (set ?s) \<in> set ?s\<close> by (rule first_position_less)
  then have "int (length (takeWhile (\<lambda>x. x \<noteq> Min (set ?s)) ?s)) + 1 \<le> int (length losses)"
    by simp
  moreover have "best_loss_epoch losses
                 = Inr (int (length (takeWhile (\<lambda>x. x \<noteq> Min (set ?s)) ?s)) + 1)"
  proof -
    have a: "np_array2 losses = Inr losses"
      using assms by (simp add: history_ok_def np_array2_def)
    have b: "sum_axis1 losses = Inr ?s"
      using assms by (simp add: history_ok_def sum_axis1_def)
    have c: "np_min ?s = Inr (Min (set ?s))"
      using ne by (simp only: np_min_def if_False)
    show ?thesis
      by (simp only: best_loss_epoch_def a b c found bindE_def sum.case)
  qed
  ultimately show ?thesis by simp
qed

lemma shouldSchedulerStep_cases:
  assumes "shouldSchedulerStep lse h = Inr (b, last1)"
  shows "\<exists>e. best_loss_epoch h = Inr e
           \<and> b = (int (length h) - e > 5 \<and> int (length h) - lse > 5)
           \<and> last1 = (if b then int (length h) else lse)"
  using assms
  by (cases "best_loss_epoch h")
     (auto simp: shouldSchedulerStep_def bindE_def Let_def split: if_splits)

lemma shouldSchedulerStep_returns:
  assumes "history_ok h"
  shows "\<exists>b last1. shouldSchedulerStep lse h = Inr (b, last1)"
proof -
  from best_loss_epoch_ok [OF assms] obtain e where "best_loss_epoch h = Inr e" by blast
  then show ?thesis
    by (auto simp: shouldSchedulerStep_def bindE_def Let_def)
qed

lemma scheduler_calls_returns:
  assumes "\<forall>h \<in> set hs. history_ok h"
  shows "\<exists>bs last1. scheduler_calls lse hs = Inr (bs, last1)"
  using assms
proof (induction hs arbitrary: lse)
  case Nil
  then show ?case by simp
next
  case (Cons h hs)
  from shouldSchedulerStep_returns [of h lse] Cons.prems
  obtain b last1 where 1: "shouldSchedulerStep lse h = Inr (b, last1)" by auto
  from Cons.IH [of last1] Cons.prems
  obtain bs last2 where 2: "scheduler_calls last1 hs = Inr (bs, last2)" by auto
  show ?case by (simp add: 1 2 bindE_def)
qed

lemma scheduler_calls_Cons:
  assumes "scheduler_calls lse (h # hs) = Inr (cs, last2)"
  shows "\<exists>b last1 bs. shouldSchedulerStep lse h = Inr (b, last1)
           \<and> scheduler_calls last1 hs = Inr (bs, last2) \<and> cs = b # bs"
  using assms
  by (cases "shouldSchedulerStep lse h"; cases "scheduler_calls (snd (projr (shouldSchedulerStep lse h))) hs")
     (auto simp: bindE_def split: prod.splits)

lemma scheduler_calls_bounds:
  assumes "scheduler_calls lse hs = Inr (bs, last2)"
  shows "length bs = length hs \<and> lse \<le> last2
         \<and> (\<forall>k < length hs. bs ! k \<longrightarrow> lse + 5 < int (length (hs ! k))
                                        \<and> int (length (hs ! k)) \<le> last2)"
  using assms
proof (induction hs arbitrary: lse bs)
  case Nil
  then show ?case by simp
next
  case (Cons h hs)
  from scheduler_calls_Cons [OF Cons.prems]
  obtain b last1 cs where s: "shouldSchedulerStep lse h = Inr (b, last1)"
      "scheduler_calls last1 hs = Inr (cs, last2)" "bs = b # cs"
    by blast
  from shouldSchedulerStep_cases [OF s(1)]
  have b: "b \<longrightarrow> int (length h) - lse > 5" and l1: "last1 = (if b then int (length h) else lse)"
    by auto
  from Cons.IH [OF s(2)]
  have ih: "length cs = length hs" "last1 \<le> last2"
      "\<forall>k < length hs. cs ! k \<longrightarrow> last1 + 5 < int (length (hs ! k)) \<and> int (length (hs ! k)) \<le> last2"
    by simp_all
  have mono: "lse \<le> last1" using b l1 by auto
  have "\<forall>k < length (h # hs). bs ! k \<longrightarrow> lse + 5 < int (length ((h # hs) ! k))
                                        \<and> int (length ((h # hs) ! k)) \<le> last2"
  proof (intro allI impI)
    fix k assume k: "k < length (h # hs)" and t: "bs ! k"
    show "lse + 5 < int (length ((h # hs) ! k)) \<and> int (length ((h # hs) ! k)) \<le> last2"
    proof (cases k)
      case 0
      with t s(3) have "b" by simp
      with b l1 ih(2) 0 show ?thesis by simp
    next
      case (Suc j)
      with k t s(3) have "j < length hs" "cs ! j" by simp_all
      with ih(3) mono Suc show ?thesis by auto
    qed
  qed
  with ih(1,2) mono s(3) show ?case by simp
qed

lemma scheduler_calls_spacing:
  assumes "scheduler_calls lse hs = Inr (bs, last2)"
  shows "\<forall>j k. j < k \<and> k < length hs \<and> bs ! j \<and> bs ! k
           \<longrightarrow> 5 < int (length (hs ! k)) - int (length (hs ! j))"
  using assms
proof (induction hs arbitrary: lse bs)
  case Nil
  then show ?case by simp
next
  case (Cons h hs)
  from scheduler_calls_Cons [OF Cons.prems]
  obtain b last1 cs where s: "shouldSchedulerStep lse h = Inr (b, last1)"
      "scheduler_calls last1 hs = Inr (cs, last2)" "bs = b # cs"
    by blast
  from shouldSchedulerStep_cases [OF s(1)]
  have l1: "last1 = (if b then int (length h) else lse)" by auto
  note tail = scheduler_calls_bounds [OF s(2)]
  show ?case
  proof (intro allI impI)
    fix j k assume a: "j < k \<and> k < length (h # hs) \<and> bs ! j \<and> bs ! k"
    then obtain k' where k': "k = Suc k'" "k' < length hs" "cs ! k'"
      using s(3) by (cases k) auto
    show "5 < int (length ((h # hs) ! k)) - int (length ((h # hs) ! j))"
    proof (cases j)
      case 0
      with a s(3) have "b" by simp
      then have "last1 = int (length h)" using l1 by simp
      with tail k' 0 show ?thesis by auto
    next
      case (Suc j')
      with a k' s(3) have "j' < k' \<and> k' < length hs \<and> cs ! j' \<and> cs ! k'" by simp
      with Cons.IH [OF s(2)] have "5 < int (length (hs ! k')) - int (length (hs ! j'))"
        by blast
      with Suc k' show ?thesis by simp
    qed
  qed
qed

text \<open>
  Claim C5. A call answers true, and then records the current epoch, only if more than
  5 epochs have passed since the epoch of the best summed loss and more than 5 since
  the recorded step; otherwise the record is kept. Over any sequence of calls on
  histories that numpy accepts, every call returns, and two calls that answer true are
  more than 5 epochs apart.
\<close>

theorem shouldSchedulerStep_rate_limited:
  assumes "\<forall>h \<in> set hs. history_ok h"
  shows "(\<forall>h \<in> set hs. \<forall>lse. \<exists>b last1 e. shouldSchedulerStep lse h = Inr (b, last1)
            \<and> best_loss_epoch h = Inr e
            \<and> (b \<longrightarrow> 5 < int (length h) - e \<and> 5 < int (length h) - lse \<and> last1 = int (length h))
            \<and> (\<not> b \<longrightarrow> last1 = lse))
       \<and> (\<exists>bs last2. scheduler_calls last0 hs = Inr (bs, last2) \<and> length bs = length hs
            \<and> (\<forall>j k. j < k \<and> k < length hs \<and> bs ! j \<and> bs ! k
                  \<longrightarrow> 5 < int (length (hs ! k)) - int (length (hs ! j))))"
proof (intro conjI ballI allI)
  fix h lse assume "h \<in> set hs"
  then have ok: "history_ok h" using assms by simp
  from shouldSchedulerStep_returns [OF ok, of lse]
  obtain b last1 where r: "shouldSchedulerStep lse h = Inr (b, last1)" by blast
  from shouldSchedulerStep_cases [OF r]
  obtain e where "best_loss_epoch h = Inr e"
      "b = (int (length h) - e > 5 \<and> int (length h) - lse > 5)"
      "last1 = (if b then int (length h) else lse)"
    by blast
  with r show "\<exists>b last1 e. shouldSchedulerStep lse h = Inr (b, last1)
            \<and> best_loss_epoch h = Inr e
            \<and> (b \<longrightarrow> 5 < int (length h) - e \<and> 5 < int (length h) - lse \<and> last1 = int (length h))
            \<and> (\<not> b \<longrightarrow> last1 = lse)"
    by auto
next
  from scheduler_calls_returns [OF assms, of last0]
  obtain bs last2 where r: "scheduler_calls last0 hs = Inr (bs, last2)" by blast
  from scheduler_calls_bounds [OF r] scheduler_calls_spacing [OF r] r
  show "\<exists>bs last2. scheduler_calls last0 hs = Inr (bs, last2) \<and> length bs = length hs
            \<and> (\<forall>j k. j < k \<and> k < length hs \<and> bs ! j \<and> bs ! k
                  \<longrightarrow> 5 < int (length (hs ! k)) - int (length (hs ! j)))"
    by blast
qed

theorem shouldSchedulerStep_rate_limited_witness:
  "history_ok [[1], [1], [1], [1], [1], [1], [1]]
   \<and> history_ok [[1], [1], [1], [1], [1], [1], [1], [1], [1], [1], [1], [1], [1]]
   \<and> scheduler_calls 0 [[[1], [1], [1], [1], [1], [1], [1]],
                         [[1], [1], [1], [1], [1], [1], [1], [1], [1], [1], [1], [1], [1]]]
       = Inr ([True, True], 13)
   \<and> 5 < int (length [[1], [1], [1], [1], [1], [1], [1], [1], [1], [1], [1], [1], [1 :: real]])
           - int (length [[1], [1], [1], [1], [1], [1], [1 :: real]])"
proof -
  let ?h7 = "[[1], [1], [1], [1], [1], [1], [1 :: real]]"
  let ?h13 = "[[1], [1], [1], [1], [1], [1], [1], [1], [1], [1], [1], [1], [1 :: real]]"
  have ok: "\<forall>h \<in> set [?h7, ?h13]. history_ok h"
    by (simp add: history_ok_def)
  have run: "scheduler_calls 0 [?h7, ?h13] = Inr ([True, True], 13)"
    by (simp add: shouldSchedulerStep_def best_loss_epoch_def np_array2_def sum_axis1_def
                  np_min_def first_index_def bindE_def)
  from shouldSchedulerStep_rate_limited [OF ok, of 0]
  obtain bs last2 where r: "scheduler_calls 0 [?h7, ?h13] = Inr (bs, last2)"
    and sp: "\<forall>j k. j < k \<and> k < length [?h7, ?h13] \<and> bs ! j \<and> bs ! k
                  \<longrightarrow> 5 < int (length ([?h7, ?h13] ! k)) - int (length ([?h7, ?h13] ! j))"
    by blast
  from r run have bs: "bs = [True, True]" by simp
  from sp [rule_format, of 0 1] bs
  have "5 < int (length ?h13) - int (length ?h7)" by simp
  moreover have "history_ok ?h7" "history_ok ?h13"
    using ok by simp_all
  ultimately show ?thesis using run by (intro conjI)
qed

section \<open>Properties of the early-stop policy\<close>

lemma Min_all_ge:
  fixes L :: real
  assumes "L \<in> set xs" "\<forall>x \<in> set xs. L \<le> x"
  shows "Min (set xs) = L"
  using assms by (intro Min_eqI) auto

lemma Max_all_le:
  fixes L :: real
  assumes "L \<in> set xs" "\<forall>x \<in> set xs. x \<le> L"
  shows "Max (set xs) = L"
  using assms by (intro Max_eqI) auto

lemma falls_then_flat_parts:
  assumes "falls_then_flat p xs"
  shows "\<forall>x \<in> set (drop p xs). x = xs ! (p - 1)"
    and "\<forall>x \<in> set (take p xs). xs ! (p - 1) \<le> x"
    and "\<forall>x \<in> set xs. xs ! (p - 1) \<le> x"
    and "1 \<le> p" and "p \<le> length xs"
proof -
  have p: "1 \<le> p" "p \<le> length xs"
    and srt: "sorted_wrt (\<lambda>a b. b < a) (take p xs)"
    and flat: "list_all (\<lambda>x. x = xs ! (p - 1)) (drop p xs)"
    using assms by (simp_all add: falls_then_flat_def)
  show "1 \<le> p" "p \<le> length xs" by (rule p)+
  show d: "\<forall>x \<in> set (drop p xs). x = xs ! (p - 1)"
    using flat by (simp add: list_all_iff)
  show t: "\<forall>x \<in> set (take p xs). xs ! (p - 1) \<le> x"
  proof
    fix x assume "x \<in> set (take p xs)"
    then obtain j where j: "j < length (take p xs)" "take p xs ! j = x"
      by (auto simp: in_set_conv_nth)
    then have jp: "j < p" by simp
    have last: "take p xs ! (p - 1) = xs ! (p - 1)"
      using p by simp
    show "xs ! (p - 1) \<le> x"
    proof (cases "j = p - 1")
      case True
      with j last show ?thesis by simp
    next
      case False
      then have "j < p - 1" using jp by simp
      moreover have "p - 1 < length (take p xs)" using p by simp
      ultimately have "take p xs ! (p - 1) < take p xs ! j"
        using sorted_wrt_nth_less [OF srt] by blast
      with j last show ?thesis by simp
    qed
  qed
  have "set xs = set (take p xs) \<union> set (drop p xs)"
    using set_append [of "take p xs" "drop p xs"] by simp
  with d t show "\<forall>x \<in> set xs. xs ! (p - 1) \<le> x"
    by auto
qed

lemma flat_column_values:
  assumes f: "falls_then_flat p xs" and pg: "p + g \<le> length xs" and g: "1 \<le> g"
  shows "np_min xs = Inr (xs ! (p - 1))"
    and "np_max (py_from (- int g) xs) = Inr (xs ! (p - 1))"
    and "np_min (py_from (- int g) xs) = Inr (xs ! (p - 1))"
    and "np_min (py_upto (- int g) xs) = Inr (xs ! (p - 1))"
proof -
  let ?L = "xs ! (p - 1)" and ?n = "length xs"
  note parts = falls_then_flat_parts [OF f]
  have p: "1 \<le> p" "p \<le> ?n" using parts(4,5) .
  have ne: "xs \<noteq> []" using p by auto
  have Lin: "?L \<in> set xs" using p by simp
  show "np_min xs = Inr ?L"
    using ne Min_all_ge [OF Lin parts(3)] by (simp add: np_min_def)
  have from_eq: "py_from (- int g) xs = drop (?n - g) xs"
    using g by (simp add: py_from_def)
  have upto_eq: "py_upto (- int g) xs = take (?n - g) xs"
    using g by (simp add: py_upto_def)
  have tail_ne: "drop (?n - g) xs \<noteq> []"
    using g p by simp
  have "set (drop (?n - g) xs) \<subseteq> set (drop p xs)"
    using pg by (intro set_drop_subset_set_drop) simp
  then have tail_flat: "\<forall>x \<in> set (drop (?n - g) xs). x = ?L"
    using parts(1) by blast
  have Ltail: "?L \<in> set (drop (?n - g) xs)"
    using tail_ne tail_flat by (cases "drop (?n - g) xs") auto
  show "np_max (py_from (- int g) xs) = Inr ?L"
    using tail_ne Max_all_le [OF Ltail] tail_flat by (simp add: np_max_def from_eq)
  show "np_min (py_from (- int g) xs) = Inr ?L"
    using tail_ne Min_all_ge [OF Ltail] tail_flat by (simp add: np_min_def from_eq)
  have head_ne: "take (?n - g) xs \<noteq> []"
    using p pg ne by auto
  have "take (?n - g) xs ! (p - 1) = ?L" "p - 1 < length (take (?n - g) xs)"
    using p pg by simp_all
  then have Lhead: "?L \<in> set (take (?n - g) xs)"
    by (metis nth_mem)
  have "\<forall>x \<in> set (take (?n - g) xs). ?L \<le> x"
    using parts(3) by (meson in_set_takeD)
  then show "np_min (py_upto (- int g) xs) = Inr ?L"
    using head_ne Min_all_ge [OF Lhead] by (simp add: np_min_def upto_eq)
qed

lemma zero_ratio_not_above: "0 \<le> tol \<Longrightarrow> \<not> np_gt (np_div (Fin 0) (Fin L)) tol"
  by (simp add: inf_of_sign_def)

lemma flat_for_column:
  assumes "flat_for g nmasses losses" "i < nmasses"
  shows "column i losses = Inr (map (\<lambda>r. r ! i) losses)"
    and "\<exists>p. falls_then_flat p (map (\<lambda>r. r ! i) losses) \<and> p + g \<le> length losses"
proof -
  have w: "\<forall>r \<in> set losses. length r = nmasses"
    using assms(1) by (simp add: flat_for_def list_all_iff)
  then show "column i losses = Inr (map (\<lambda>r. r ! i) losses)"
    using assms(2) by (simp add: column_def list_all_iff)
  have "list_ex (\<lambda>p. falls_then_flat p (map (\<lambda>r. r ! i) losses)) [1..<Suc (length losses - g)]"
    using assms by (simp add: flat_for_def list_all_iff)
  then obtain p where "falls_then_flat p (map (\<lambda>r. r ! i) losses)" "1 \<le> p" "p \<le> length losses - g"
    by (auto simp: list_ex_iff)
  then show "\<exists>p. falls_then_flat p (map (\<lambda>r. r ! i) losses) \<and> p + g \<le> length losses"
    by (intro exI [of _ p]) auto
qed

lemma flat_not_unstable:
  assumes "flat_for g nmasses losses" "1 \<le> g" "0 \<le> tol" "\<forall>i \<in> set idx. i < nmasses"
  shows "any_unstable idx losses (int g) tol = Inr False"
  using assms(4)
proof (induction idx)
  case Nil
  then show ?case by simp
next
  case (Cons i idx)
  then have i: "i < nmasses" by simp
  let ?col = "map (\<lambda>r. r ! i) losses"
  from flat_for_column [OF assms(1) i]
  obtain p where c: "column i losses = Inr ?col"
    and f: "falls_then_flat p ?col" and pg: "p + g \<le> length ?col"
    by auto
  note v = flat_column_values [OF f pg assms(2)]
  from Cons have ih: "any_unstable idx losses (int g) tol = Inr False" by simp
  show ?case
    by (simp add: c v(1,2,3) bindE_def ih zero_ratio_not_above [OF assms(3)] del: np_div.simps)
qed

lemma flat_no_improvement:
  assumes "flat_for g nmasses losses" "1 \<le> g" "0 \<le> tol" "\<forall>i \<in> set idx. i < nmasses"
  shows "any_make_good_improvement idx losses (int g) tol = Inr False"
  using assms(4)
proof (induction idx)
  case Nil
  then show ?case by simp
next
  case (Cons i idx)
  then have i: "i < nmasses" by simp
  let ?col = "map (\<lambda>r. r ! i) losses"
  from flat_for_column [OF assms(1) i]
  obtain p where c: "column i losses = Inr ?col"
    and f: "falls_then_flat p ?col" and pg: "p + g \<le> length ?col"
    by auto
  note v = flat_column_values [OF f pg assms(2)]
  from Cons have ih: "any_make_good_improvement idx losses (int g) tol = Inr False" by simp
  show ?case
    by (simp add: c v(1,4) bindE_def ih zero_ratio_not_above [OF assms(3)] del: np_div.simps)
qed

lemma shouldEarlyStop_too_early:
  "int (length losses) < min_epoch
     \<Longrightarrow> shouldEarlyStop nmasses losses min_epoch grace_epochs tol = Inr False"
  by (simp add: shouldEarlyStop_def)

lemma shouldEarlyStop_flat_history:
  assumes me: "min_epoch \<le> int (length losses)" and g: "1 \<le> g" "g < length losses"
    and tol: "0 \<le> tol" and flat: "flat_for g nmasses losses"
  shows "shouldEarlyStop nmasses losses min_epoch (int g) tol = Inr True"
proof -
  let ?s = "map sum_list losses"
  have ne: "losses \<noteq> []" using g by auto
  have w: "\<forall>r \<in> set losses. length r = nmasses"
    using flat by (simp add: flat_for_def list_all_iff)
  then have "\<forall>r \<in> set losses. length r = length (hd losses)"
    using ne by (cases losses) auto
  then have a: "np_array2 losses = Inr losses"
    by (simp add: np_array2_def list_all_iff)
  have b: "sum_axis1 losses = Inr ?s"
    using ne by (simp add: sum_axis1_def)
  have u: "any_unstable [0..<nmasses] losses (int g) tol = Inr False"
    using flat_not_unstable [OF flat g(1) tol, of "[0..<nmasses]"] by simp
  have im: "any_make_good_improvement [0..<nmasses] losses (int g) tol = Inr False"
    using flat_no_improvement [OF flat g(1) tol, of "[0..<nmasses]"] by simp
  have sne: "?s \<noteq> []" using ne by simp
  then have c: "np_min ?s = Inr (Min (set ?s))"
    by (simp only: np_min_def if_False)
  have "Min (set ?s) \<in> set ?s"
    using sne Min_in [of "set ?s"] by simp
  then have d: "first_index (Min (set ?s)) ?s
                = Inr (length (takeWhile (\<lambda>x. x \<noteq> Min (set ?s)) ?s))"
    by (simp only: first_index_def if_True)
  have n1: "\<not> int (length losses) < min_epoch" using me by simp
  have n2: "int (length losses) > int g" using g by simp
  show ?thesis
    unfolding shouldEarlyStop_def Let_def
    by (simp only: n1 n2 if_False if_True a b u im c d bindE_def sum.case not_False_eq_True
                   if_cancel)
qed

text \<open>
  The claimed behaviour, for a grace period of at least one epoch. Before \<open>min_epoch\<close> epochs the
  answer is false, whatever the history. From \<open>min_epoch\<close> on, with a tolerance that is
  not negative and a history longer than the grace period in which every mass point's
  loss fell strictly and has then been flat for more than \<open>grace_epochs\<close> epochs (its
  last \<open>grace_epochs + 1\<close> records or more are equal), the answer is true.
\<close>

theorem shouldEarlyStop_on_flat_history:
  "(int (length losses) < min_epoch
      \<longrightarrow> shouldEarlyStop nmasses losses min_epoch grace_epochs tol = Inr False)
   \<and> (min_epoch \<le> int (length losses) \<and> 1 \<le> grace_epochs
        \<and> grace_epochs < int (length losses) \<and> 0 \<le> tol
        \<and> flat_for (nat grace_epochs) nmasses losses
      \<longrightarrow> shouldEarlyStop nmasses losses min_epoch grace_epochs tol = Inr True)"
proof (intro conjI impI)
  assume "int (length losses) < min_epoch"
  then show "shouldEarlyStop nmasses losses min_epoch grace_epochs tol = Inr False"
    by (rule shouldEarlyStop_too_early)
next
  assume a: "min_epoch \<le> int (length losses) \<and> 1 \<le> grace_epochs
        \<and> grace_epochs < int (length losses) \<and> 0 \<le> tol
        \<and> flat_for (nat grace_epochs) nmasses losses"
  define g where "g = nat grace_epochs"
  have g: "1 \<le> g" "g < length losses" "grace_epochs = int g"
    using a by (auto simp: g_def)
  have "shouldEarlyStop nmasses losses min_epoch (int g) tol = Inr True"
    using a g(1,2) by (intro shouldEarlyStop_flat_history) (simp_all add: g_def)
  then show "shouldEarlyStop nmasses losses min_epoch grace_epochs tol = Inr True"
    by (simp only: g(3))
qed

theorem shouldEarlyStop_on_flat_history_witness:
  "shouldEarlyStop 2 [[3, 5], [2, 4], [1, 4], [1, 4], [1, 4]] 9 2 (1 / 100) = Inr False
   \<and> flat_for (nat 2) 2 [[3, 5], [2, 4], [1, 4], [1, 4], [1, 4]]
   \<and> shouldEarlyStop 2 [[3, 5], [2, 4], [1, 4], [1, 4], [1, 4]] 1 2 (1 / 100) = Inr True"
proof -
  let ?h = "[[3, 5], [2, 4], [1, 4], [1, 4], [1, 4 :: real]]"
  have early: "int (length ?h) < 9" by simp
  have flat: "flat_for (nat 2) 2 ?h"
    by (simp add: flat_for_def falls_then_flat_def upt_rec)
  have late: "1 \<le> int (length ?h) \<and> (1::int) \<le> 2 \<and> 2 < int (length ?h) \<and> (0::real) \<le> 1 / 100
              \<and> flat_for (nat 2) 2 ?h"
    using flat by simp
  from shouldEarlyStop_on_flat_history [of ?h 9 2 2 "1 / 100"] early
  have r1: "shouldEarlyStop 2 ?h 9 2 (1 / 100) = Inr False" by blast
  from shouldEarlyStop_on_flat_history [of ?h 1 2 2 "1 / 100"] late
  have r2: "shouldEarlyStop 2 ?h 1 2 (1 / 100) = Inr True" by blast
  from r1 flat r2 show ?thesis by (intro conjI)
qed

text \<open>
  Claim C4, at the input where the code departs from it. The history fell strictly and
  has been flat for more than \<open>grace_epochs = 0\<close> epochs, with at least \<open>min_epoch\<close>
  epochs, so the answer should be true, as the staleness test on its own would give.
  But the slice \<open>[-0:]\<close> of line 217 is the whole column and not its last
  \<open>grace_epochs\<close> entries: the fall counts as instability and the answer is false.
\<close>

theorem shouldEarlyStop_zero_grace_returns_false:
  "flat_for 0 1 [[3], [2], [1], [1]]
   \<and> (1::int) \<le> int (length [[3], [2], [1], [1 :: real]])
   \<and> best_loss_epoch [[3], [2], [1], [1]] = Inr 3
   \<and> py_from (- 0) [3, 2, 1, 1 :: real] = [3, 2, 1, 1]
   \<and> shouldEarlyStop 1 [[3], [2], [1], [1]] 1 0 (1 / 100) = Inr False"
  by (simp add: flat_for_def falls_then_flat_def shouldEarlyStop_def np_array2_def
                sum_axis1_def bindE_def column_def np_min_def np_max_def py_from_def
                first_index_def best_loss_epoch_def upt_rec)

section \<open>Properties of the evaluation\<close>

lemma zip_tl_nth:
  "i < length xs - 1 \<Longrightarrow> zip xs (tl xs) ! i = (xs ! i, xs ! Suc i)"
  by (simp add: nth_tl)

lemma np_trapz_equal_lengths:
  assumes "length ys = length xs"
  shows "np_trapz ys xs
         = Inr (\<Sum>i < length xs - 1. (xs ! Suc i - xs ! i) * (ys ! Suc i + ys ! i) / 2)"
proof -
  let ?d = "np_diff xs" and ?s = "neighbour_sums ys"
  have ld: "length ?d = length xs - 1" and ls: "length ?s = length xs - 1"
    using assms by (simp_all add: np_diff_def neighbour_sums_def)
  have "sum_list (map (\<lambda>(a, b). a * b / 2) (zip ?d ?s))
        = (\<Sum>i < length xs - 1. (case zip ?d ?s ! i of (a, b) \<Rightarrow> a * b / 2))"
    using ld ls by (simp add: sum_list_sum_nth atLeast0LessThan)
  also have "\<dots> = (\<Sum>i < length xs - 1. (xs ! Suc i - xs ! i) * (ys ! Suc i + ys ! i) / 2)"
  proof (rule sum.cong)
    fix i assume "i \<in> {..<length xs - 1}"
    then have i: "i < length xs - 1" by simp
    then have "zip ?d ?s ! i = (xs ! Suc i - xs ! i, ys ! Suc i + ys ! i)"
      using ld ls assms by (simp add: np_diff_def neighbour_sums_def nth_tl)
    then show "(case zip ?d ?s ! i of (a, b) \<Rightarrow> a * b / 2)
               = (xs ! Suc i - xs ! i) * (ys ! Suc i + ys ! i) / 2"
      by simp
  qed simp
  finally show ?thesis
    using ld ls by (simp add: np_trapz_def Let_def)
qed

text \<open>
  Claim C8. When prediction and \<open>roc_curve\<close> have returned (they run before the \<open>try\<close>),
  with \<open>fpr\<close> and \<open>tpr\<close> of one length as \<open>roc_curve\<close> returns them, and \<open>roc_auc_score\<close>
  raises, then \<open>getROC\<close> does not raise: it returns the curve with the trapezoidal
  integral of \<open>tpr\<close> over \<open>fpr\<close> as the AUC.
\<close>

theorem getROC_falls_back_to_trapz:
  assumes "predict_fn X = Inr predictions"
    and "roc_curve y predictions weight = Inr (fpr, tpr, t)"
    and "length fpr = length tpr"
    and "roc_auc_score y predictions weight = Inl e"
  shows "getROC predict_fn roc_curve roc_auc_score X y weight
         = Inr (fpr, tpr, \<Sum>i < length fpr - 1. (fpr ! Suc i - fpr ! i) * (tpr ! Suc i + tpr ! i) / 2)"
proof -
  have "np_trapz tpr fpr
        = Inr (\<Sum>i < length fpr - 1. (fpr ! Suc i - fpr ! i) * (tpr ! Suc i + tpr ! i) / 2)"
    using np_trapz_equal_lengths [of tpr fpr] assms(3) by simp
  then show ?thesis
    by (simp add: getROC_def assms(1,2,4) bindE_def)
qed

theorem getROC_falls_back_to_trapz_witness:
  "getROC (\<lambda>X :: real list. Inr X)
          (\<lambda>(y :: int list) (p :: real list) (wt :: real list). Inr ([0, 1 / 2, 1], [0, 1, 1], [2, 1, 0]))
          (\<lambda>(y :: int list) (p :: real list) (wt :: real list). Inl ValueError)
          [1 / 5, 4 / 5] [1, 1] [1, 1]
   = Inr ([0, 1 / 2, 1], [0, 1, 1], 3 / 4)"
proof -
  let ?pred = "\<lambda>X :: real list. (Inr X :: py_error + real list)"
  let ?curve = "\<lambda>(y :: int list) (p :: real list) (wt :: real list).
                  (Inr ([0, 1 / 2, 1], [0, 1, 1], [2, 1, 0]) :: py_error + real list \<times> real list \<times> real list)"
  let ?auc = "\<lambda>(y :: int list) (p :: real list) (wt :: real list). (Inl ValueError :: py_error + real)"
  have v: "(\<Sum>i < length [0, 1 / 2, 1 :: real] - 1.
              ([0, 1 / 2, 1 :: real] ! Suc i - [0, 1 / 2, 1] ! i) * ([0, 1, 1 :: real] ! Suc i + [0, 1, 1] ! i) / 2)
           = 3 / 4"
    by (simp add: lessThan_Suc numeral_2_eq_2)
  note fallback = getROC_falls_back_to_trapz
    [where predict_fn = ?pred and roc_curve = ?curve and roc_auc_score = ?auc
       and X = "[1 / 5, 4 / 5]" and y = "[1, 1]" and weight = "[1, 1]"
       and predictions = "[1 / 5, 4 / 5]" and fpr = "[0, 1 / 2, 1]" and tpr = "[0, 1, 1]"
       and t = "[2, 1, 0]" and e = ValueError]
  from fallback v show ?thesis
    by simp
qed

section \<open>Interrupting the epoch loop\<close>

lemma epoch_body_other_epoch:
  "i \<noteq> j \<Longrightarrow> epoch_body (env\<lparr>env_irq := Some (j, ph)\<rparr>) i s = epoch_body (env\<lparr>env_irq := None\<rparr>) i s"
  by (simp add: epoch_body_def)

lemma epoch_loop_other_epochs:
  "j \<notin> set es \<Longrightarrow>
     epoch_loop (env\<lparr>env_irq := Some (j, ph)\<rparr>) es s = epoch_loop (env\<lparr>env_irq := None\<rparr>) es s"
proof (induction es arbitrary: s)
  case Nil
  then show ?case by simp
next
  case (Cons i es)
  then have ne: "i \<noteq> j" and rest: "j \<notin> set es" by auto
  have ih: "\<And>s. epoch_loop (env\<lparr>env_irq := Some (j, ph)\<rparr>) es s
                 = epoch_loop (env\<lparr>env_irq := None\<rparr>) es s"
    using Cons.IH [OF rest] .
  show ?case
    using ne by (simp add: epoch_body_other_epoch [OF ne] ih split: body_result.splits cong: if_cong)
qed

lemma epoch_loop_append:
  "epoch_loop env (es @ fs) s =
     (case epoch_loop env es s of
        Inr (MaxEpochsReached s1) \<Rightarrow> epoch_loop env fs s1
      | r \<Rightarrow> r)"
proof (induction es arbitrary: s)
  case Nil
  then show ?case by simp
next
  case (Cons i es)
  show ?case
    by (simp add: Cons.IH bindE_def split: body_result.splits sum.splits outcome.splits
             cong: if_cong)
qed

lemma epochs_split: "i < n \<Longrightarrow> [0..<n] = [0..<i] @ i # [Suc i..<n]"
  using upt_add_eq_append [of 0 i "n - i"] by (simp add: upt_conv_Cons)

lemma epoch_loop_reaches:
  assumes "epoch_loop (env\<lparr>env_irq := None\<rparr>) [0..<i] s0 = Inr (MaxEpochsReached s)"
    and "i < max_epochs"
  shows "epoch_loop (env\<lparr>env_irq := Some (i, ph)\<rparr>) [0..<max_epochs] s0
         = epoch_loop (env\<lparr>env_irq := Some (i, ph)\<rparr>) (i # [Suc i..<max_epochs]) s"
proof -
  have "epoch_loop (env\<lparr>env_irq := Some (i, ph)\<rparr>) [0..<i] s0 = Inr (MaxEpochsReached s)"
    using epoch_loop_other_epochs [where j = i and es = "[0..<i]" and env = env and ph = ph and s = s0]
          assms(1)
    by simp
  then show ?thesis
    by (simp add: epochs_split [OF assms(2)] epoch_loop_append)
qed

lemma epoch_loop_caught:
  assumes "epoch_body env i s = Caught s1"
  shows "epoch_loop env (i # rest) s = Inr (Interrupted s1)"
  by (simp add: assms)

text \<open>
  The path the handler covers. Let the loop reach epoch \<open>i\<close> in state \<open>s\<close>. An interrupt
  raised inside the \<open>try\<close> statement of that epoch ends the loop without an exception,
  and \<open>train\<close> returns the histories as they stand: those of \<open>s\<close>, with the record of
  epoch \<open>i\<close> in the train history if it was already appended, and in the test history
  likewise.
\<close>

lemma interrupt_inside_try_returns_histories:
  assumes "epoch_loop (env\<lparr>env_irq := None\<rparr>) [0..<i] initial_state = Inr (MaxEpochsReached s)"
    and "i < max_epochs"
  shows "(ph = InBatchLoop \<or> ph = InLossEvaluation \<longrightarrow>
            train_epochs (env\<lparr>env_irq := Some (i, ph)\<rparr>) max_epochs
              = Inr (train_loss s, test_loss s))
       \<and> (ph = BetweenAppends \<longrightarrow>
            train_epochs (env\<lparr>env_irq := Some (i, ph)\<rparr>) max_epochs
              = Inr (train_loss s @ [fst (env_losses env i)], test_loss s))
       \<and> (ph = AfterAppends \<longrightarrow>
            train_epochs (env\<lparr>env_irq := Some (i, ph)\<rparr>) max_epochs
              = Inr (train_loss s @ [fst (env_losses env i)],
                     test_loss s @ [snd (env_losses env i)]))"
proof -
  let ?env = "env\<lparr>env_irq := Some (i, ph)\<rparr>"
  have run: "train_epochs ?env max_epochs
             = bindE (epoch_loop ?env (i # [Suc i..<max_epochs]) s)
                 (\<lambda>out. Inr (train_loss (final_state out), test_loss (final_state out)))"
    by (simp only: train_epochs_def epoch_loop_reaches [OF assms])
  obtain trl tel where l: "env_losses env i = (trl, tel)"
    by (cases "env_losses env i") auto
  have early: "train_epochs ?env max_epochs = Inr (train_loss s, test_loss s)"
    if "ph = InBatchLoop \<or> ph = InLossEvaluation"
  proof -
    have "epoch_body ?env i s = Caught s"
      using that by (auto simp: epoch_body_def)
    then show ?thesis
      by (simp add: run epoch_loop_caught bindE_def del: epoch_loop.simps)
  qed
  have between: "train_epochs ?env max_epochs = Inr (train_loss s @ [trl], test_loss s)"
    if "ph = BetweenAppends"
  proof -
    have "epoch_body ?env i s = Caught (s\<lparr>train_loss := train_loss s @ [trl]\<rparr>)"
      using that by (simp add: epoch_body_def l)
    then show ?thesis
      by (simp add: run epoch_loop_caught bindE_def del: epoch_loop.simps)
  qed
  have after: "train_epochs ?env max_epochs = Inr (train_loss s @ [trl], test_loss s @ [tel])"
    if "ph = AfterAppends"
  proof -
    have "epoch_body ?env i s
          = Caught (s\<lparr>train_loss := train_loss s @ [trl], test_loss := test_loss s @ [tel]\<rparr>)"
      using that by (simp add: epoch_body_def l)
    then show ?thesis
      by (simp add: run epoch_loop_caught bindE_def del: epoch_loop.simps)
  qed
  from early between after l show ?thesis by simp
qed

text \<open>
  With two mass points the first plot update receives two lines per history: the
  unpacking of line 267 raises \<open>ValueError\<close>, which the handler of \<open>KeyboardInterrupt\<close>
  does not take, and \<open>train\<close> ends in the first epoch.
\<close>

lemma train_two_mass_points_plot_raises:
  "train_epochs \<lparr>env_nmasses = 2, env_losses = (\<lambda>i. ([1, 1], [2, 2])),
                  env_irq = None, env_min_epoch = 10,
                  env_grace_epochs = 5, env_tol = 1 / 100\<rparr> 3
   = Inl ValueError"
  by (simp add: train_epochs_def initial_state_def epoch_body_def shouldSchedulerStep_def
                best_loss_epoch_def np_array2_def sum_axis1_def np_min_def first_index_def
                updateLossPlot_def plot_lines_def unpack_one_line_def bindE_def upt_rec)

text \<open>
  Claim C9, at the input where the code departs from it. One mass point, constant
  losses, three epochs. An interrupt raised inside the \<open>try\<close> statement ends \<open>train\<close>
  with the histories collected so far: in the batch loop of the first epoch with empty
  histories, after the appends of the second epoch with two records each. An interrupt
  raised in the epoch loop during the early-stop check of the first epoch, which
  follows the \<open>try\<close> statement, is not caught: \<open>train\<close> ends with \<open>KeyboardInterrupt\<close>
  and returns no history.
\<close>

theorem train_interrupt_in_early_stop_check_raises:
  "train_epochs \<lparr>env_nmasses = 1, env_losses = (\<lambda>i. ([1], [2])),
                  env_irq = Some (0, InBatchLoop), env_min_epoch = 10,
                  env_grace_epochs = 5, env_tol = 1 / 100\<rparr> 3
     = Inr ([], [])
   \<and> train_epochs \<lparr>env_nmasses = 1, env_losses = (\<lambda>i. ([1], [2])),
                  env_irq = Some (1, AfterAppends), env_min_epoch = 10,
                  env_grace_epochs = 5, env_tol = 1 / 100\<rparr> 3
     = Inr ([[1], [1]], [[2], [2]])
   \<and> train_epochs \<lparr>env_nmasses = 1, env_losses = (\<lambda>i. ([1], [2])),
                  env_irq = Some (0, InEarlyStop), env_min_epoch = 10,
                  env_grace_epochs = 5, env_tol = 1 / 100\<rparr> 3
     = Inl KeyboardInterrupt"
  by (simp add: train_epochs_def initial_state_def epoch_body_def shouldSchedulerStep_def
                best_loss_epoch_def np_array2_def sum_axis1_def np_min_def first_index_def
                updateLossPlot_def plot_lines_def unpack_one_line_def shouldEarlyStop_def
                bindE_def upt_rec)

end
